theory Spec2Isabelle
  imports Complex_Main
begin

section \<open>Errors\<close>

text \<open>
  The Python exceptions the modelled code can raise. \<open>ValueError\<close> carries the message
  prefix, \<open>TypeError\<close> stands for subscripting \<open>None\<close> (\<open>cursor.fetchone()[0]\<close> with no
  row), \<open>IndexError\<close> for \<open>deque[0]\<close> on an empty deque and \<open>KeyError\<close> for a missing
  dictionary key.
\<close>

datatype error = ValueError string | TypeError | IndexError | KeyError

section \<open>Release dates (\<open>dump_albums\<close>, lines 558--562)\<close>

text \<open>
  \<^verbatim>\<open>
  if len(release_date) == 4: release_date = f"{release_date}-01-01"
  elif len(release_date) == 7: release_date = f"{release_date}-01"
  elif len(release_date) == 10: pass
  else: raise ValueError(f"Invalid release date: {release_date}")
  \<close>
  Strings are character lists; for the ASCII dates of the provider the length is
  Python's \<open>len\<close>.
\<close>

definition normalize_release_date :: "string \<Rightarrow> error + string" where
  "normalize_release_date release_date =
     (if length release_date = 4 then Inr (release_date @ ''-01-01'')
      else if length release_date = 7 then Inr (release_date @ ''-01'')
      else if length release_date = 10 then Inr release_date
      else Inl (ValueError (''Invalid release date: '' @ release_date)))"

section \<open>Programs with state and exceptions\<close>

text \<open>
  A Python function that mutates globals (or the database behind a cursor) and may raise
  is a function from the state to a result and the state it leaves: an exception does
  not undo the mutations made before it.
\<close>

type_synonym ('s, 'a) prog = "'s \<Rightarrow> (error + 'a) \<times> 's"

definition return :: "'a \<Rightarrow> ('s, 'a) prog" where
  "return a = (\<lambda>s. (Inr a, s))"

definition raise :: "error \<Rightarrow> ('s, 'a) prog" where
  "raise e = (\<lambda>s. (Inl e, s))"

definition bind :: "('s, 'a) prog \<Rightarrow> ('a \<Rightarrow> ('s, 'b) prog) \<Rightarrow> ('s, 'b) prog" where
  "bind m f = (\<lambda>s. case m s of (Inl e, s') \<Rightarrow> (Inl e, s') | (Inr a, s') \<Rightarrow> f a s')"

section \<open>The process environment and the module globals\<close>

text \<open>
  What \<open>requests.get\<close> followed by \<open>raise_for_status\<close> and \<open>json\<close> can come to: a parsed
  payload, an \<open>HTTPError\<close> with its status code and \<open>Retry-After\<close> header (as the integer
  \<open>int(...)\<close> reads), or any other \<open>RequestException\<close> (a transport failure). A body that
  is not JSON is left out: what \<open>json\<close> raises then depends on the version of the library.
\<close>

datatype 'j response = Ok 'j | HttpError nat "int option" | RequestError

text \<open>
  The observable effects, in order: each \<open>time.sleep\<close> by its call site and argument, and
  each \<open>requests.get\<close> by its URL.
\<close>

datatype event =
    BaseWait rat
  | WindowWait rat
  | RetryAfterWait rat
  | Backoff rat
  | HttpGet string

text \<open>
  Time is in exact rational seconds (the rounding of Python's floats is not modelled).
  \<open>clock\<close> is what \<open>time.time()\<close> returns, \<open>http\<close> the outcomes of the coming requests,
  \<open>rng\<close> the coming draws of \<open>random.uniform(0, 1)\<close>. The three deques and the counter are
  the globals of \<open>spot_load.py\<close>, \<open>timestamps\<close> is the global of \<open>musicbrainz_load.py\<close>.
\<close>

record 'j world =
  halfmin_timestamps :: "rat list"
  hourly_timestamps :: "rat list"
  daily_timestamps :: "rat list"
  total_requests :: int
  timestamps :: "rat list"
  clock :: rat
  trace :: "event list"
  http :: "'j response list"
  rng :: "rat list"

definition MAX_REQUESTS_PER_30_SEC :: nat where "MAX_REQUESTS_PER_30_SEC = 40"
definition MAX_REQUESTS_PER_HOUR :: nat where "MAX_REQUESTS_PER_HOUR = 2500"
definition MAX_REQUESTS_PER_DAY :: nat where "MAX_REQUESTS_PER_DAY = 4500"
definition base_wait :: rat where "base_wait = 1 / 10"

text \<open>\<open>time.sleep(d)\<close> raises \<open>ValueError\<close> for a negative \<open>d\<close>; otherwise the clock moves on.\<close>

definition sleep :: "(rat \<Rightarrow> event) \<Rightarrow> rat \<Rightarrow> ('j world, unit) prog" where
  "sleep site d = (\<lambda>w.
     if d < 0 then (Inl (ValueError ''sleep length must be non-negative''), w)
     else (Inr (), w\<lparr>clock := clock w + d, trace := trace w @ [site d]\<rparr>))"

text \<open>A request consumes the next outcome; with none left the transport fails.\<close>

definition requests_get :: "string \<Rightarrow> 'j world \<Rightarrow> 'j response \<times> 'j world" where
  "requests_get url w =
     (case http w of
        [] \<Rightarrow> (RequestError, w\<lparr>trace := trace w @ [HttpGet url]\<rparr>)
      | r # rs \<Rightarrow> (r, w\<lparr>trace := trace w @ [HttpGet url], http := rs\<rparr>))"

definition uniform01 :: "'j world \<Rightarrow> rat \<times> 'j world" where
  "uniform01 w = (case rng w of [] \<Rightarrow> (0, w) | j # js \<Rightarrow> (j, w\<lparr>rng := js\<rparr>))"

section \<open>The rate limiter (\<open>check_rate_limit\<close>, lines 49--94)\<close>

text \<open>
  \<^verbatim>\<open>while halfmin_timestamps and current_time - halfmin_timestamps[0] > 30:
      halfmin_timestamps.popleft()\<close>
\<close>

fun evict :: "rat \<Rightarrow> rat \<Rightarrow> rat list \<Rightarrow> rat list" where
  "evict dur current_time [] = []"
| "evict dur current_time (t # ts) =
     (if current_time - t > dur then evict dur current_time ts else t # ts)"

text \<open>
  \<^verbatim>\<open>if len(halfmin_timestamps) >= MAX_REQUESTS_PER_30_SEC:
      wait_time = 30 - (current_time - halfmin_timestamps[0])
      time.sleep(wait_time + 1)\<close>
  A single \<open>if\<close>: nothing is evicted or checked again after the sleep.
\<close>

definition window_wait :: "nat \<Rightarrow> rat \<Rightarrow> rat \<Rightarrow> rat list \<Rightarrow> ('j world, unit) prog" where
  "window_wait cap dur current_time dq =
     (if length dq \<ge> cap then
        (case dq of
           [] \<Rightarrow> raise IndexError
         | t0 # _ \<Rightarrow> sleep WindowWait (dur - (current_time - t0) + 1))
      else return ())"

text \<open>The \<open>DEBUG\<close> printing (lines 67--72) has no effect on the state and is left out.\<close>

definition check_rate_limit :: "('j world, unit) prog" where
  "check_rate_limit = (\<lambda>w0.
     let current_time = clock w0;
         w1 = w0\<lparr>halfmin_timestamps := evict 30 current_time (halfmin_timestamps w0),
                 hourly_timestamps := evict 3600 current_time (hourly_timestamps w0),
                 daily_timestamps := evict 86400 current_time (daily_timestamps w0)\<rparr>
     in bind (sleep BaseWait base_wait) (\<lambda>_.
        bind (window_wait MAX_REQUESTS_PER_30_SEC 30 current_time (halfmin_timestamps w1)) (\<lambda>_.
        bind (window_wait MAX_REQUESTS_PER_HOUR 3600 current_time (hourly_timestamps w1)) (\<lambda>_.
        bind (window_wait MAX_REQUESTS_PER_DAY 86400 current_time (daily_timestamps w1)) (\<lambda>_.
        (\<lambda>w. (Inr (),
           w\<lparr>halfmin_timestamps := halfmin_timestamps w @ [current_time],
             hourly_timestamps := hourly_timestamps w @ [current_time],
             daily_timestamps := daily_timestamps w @ [current_time],
             total_requests := total_requests w + 1\<rparr>)))))) w1)"

text \<open>
  A sequence of calls of the limiter: before each call the caller lets \<open>d\<close> seconds pass
  (the request itself, the work on its result, a sleep that ran long).
\<close>

definition elapse :: "rat \<Rightarrow> 'j world \<Rightarrow> 'j world" where
  "elapse d w = w\<lparr>clock := clock w + d\<rparr>"

fun rate_limited_calls :: "rat list \<Rightarrow> ('j world, unit) prog" where
  "rate_limited_calls [] w = return () w"
| "rate_limited_calls (d # ds) w =
     bind check_rate_limit (\<lambda>_. rate_limited_calls ds) (elapse d w)"

text \<open>The module as imported: empty deques, no request counted.\<close>

definition fresh :: "'j world \<Rightarrow> bool" where
  "fresh w \<longleftrightarrow> halfmin_timestamps w = [] \<and> hourly_timestamps w = [] \<and>
     daily_timestamps w = [] \<and> total_requests w = 0"

text \<open>The recorded timestamps of a deque that lie within \<open>dur\<close> seconds of the instant \<open>t\<close>.\<close>

definition in_window :: "rat \<Rightarrow> rat \<Rightarrow> rat list \<Rightarrow> nat" where
  "in_window dur t dq = length (filter (\<lambda>x. t - x \<le> dur) dq)"

text \<open>
  The invariant of a window between calls, at clock \<open>c\<close>: the deque is in insertion
  order, nothing in it is from the future, and at most \<open>cap\<close> of its timestamps lie
  within the window.
\<close>

definition window_ok :: "nat \<Rightarrow> rat \<Rightarrow> rat \<Rightarrow> rat list \<Rightarrow> bool" where
  "window_ok cap dur c dq \<longleftrightarrow>
     sorted dq \<and> list_all (\<lambda>x. x \<le> c) dq \<and> in_window dur c dq \<le> cap"

definition limiter_ok :: "'j world \<Rightarrow> bool" where
  "limiter_ok w \<longleftrightarrow>
     window_ok MAX_REQUESTS_PER_30_SEC 30 (clock w) (halfmin_timestamps w) \<and>
     window_ok MAX_REQUESTS_PER_HOUR 3600 (clock w) (hourly_timestamps w) \<and>
     window_ok MAX_REQUESTS_PER_DAY 86400 (clock w) (daily_timestamps w)"

text \<open>The module globals right after import, at clock 0, with nothing to come.\<close>

definition world0 :: "'j world" where
  "world0 = \<lparr>halfmin_timestamps = [], hourly_timestamps = [], daily_timestamps = [],
     total_requests = 0, timestamps = [], clock = 0, trace = [], http = [], rng = []\<rparr>"

section \<open>Fetching from the provider (\<open>get_info\<close>, \<open>get_batch_info\<close>)\<close>

text \<open>
  The retry loop, lines 115--131 of \<open>get_info\<close> and, statement for statement the same,
  lines 159--175 of \<open>get_batch_info\<close>:
  \<^verbatim>\<open>
  for attempt in range(retries):
      check_rate_limit()
      try:
          response = requests.get(url, headers=headers)
          response.raise_for_status()
          return response.json()
      except requests.exceptions.HTTPError as e:
          if response.status_code == 429 and attempt < retries - 1:
              retry_after = int(response.headers.get("Retry-After", 1))
              time.sleep(retry_after)
          else:
              print(f"HTTP Error: {e}")
      except requests.exceptions.RequestException as e:
          print(f"Request error: {e}")
      time.sleep(2 ** attempt)
  return None
  \<close>
  Neither \<open>except\<close> branch leaves the loop: after either, control reaches the sleep of
  \<open>2 ** attempt\<close> seconds and the next attempt. The bearer token is the credential
  collaborator's and is not modelled.
\<close>

function fetch_attempts :: "string \<Rightarrow> nat \<Rightarrow> nat \<Rightarrow> ('j world, 'j option) prog" where
  "fetch_attempts url retries attempt w =
     (if attempt < retries then
        bind check_rate_limit (\<lambda>_ w1.
          case requests_get url w1 of
            (Ok j, w2) \<Rightarrow> (Inr (Some j), w2)
          | (HttpError status retry_after, w2) \<Rightarrow>
              bind (if status = 429 \<and> int attempt < int retries - 1
                    then sleep RetryAfterWait
                           (of_int (case retry_after of None \<Rightarrow> 1 | Some n \<Rightarrow> n))
                    else return ())
                (\<lambda>_. bind (sleep Backoff (2 ^ attempt))
                  (\<lambda>_ w4. fetch_attempts url retries (Suc attempt) w4)) w2
          | (RequestError, w2) \<Rightarrow>
              bind (sleep Backoff (2 ^ attempt))
                (\<lambda>_ w4. fetch_attempts url retries (Suc attempt) w4) w2) w
      else (Inr None, w))"
  by pat_completeness auto
termination
  by (relation "measure (\<lambda>(url, retries, attempt, w). retries - attempt)") auto

text \<open>\<open>",".join(item_ids)\<close>\<close>

fun join_ids :: "string list \<Rightarrow> string" where
  "join_ids [] = []"
| "join_ids [x] = x"
| "join_ids (x # y # ys) = x @ '','' @ join_ids (y # ys)"

text \<open>
  The \<open>ValueError\<close> messages are kept up to the text that does not depend on the
  arguments' \<open>repr\<close>.
\<close>

definition get_info :: "string \<Rightarrow> string \<Rightarrow> nat \<Rightarrow> ('j world, 'j option) prog" where
  "get_info item_type item_id retries =
     (let valid_types = [''track'', ''album'', ''artist'', ''playlist''] in
      if item_type \<notin> set valid_types then raise (ValueError ''Invalid item_type'')
      else fetch_attempts (''https://api.spotify.com/v1/'' @ item_type @ ''s/'' @ item_id)
             retries 0)"

definition valid_types :: "string list" where
  "valid_types = [''track'', ''album'', ''artist'']"

definition max_sizes :: "string \<rightharpoonup> nat" where
  "max_sizes = [''track'' \<mapsto> 50, ''artist'' \<mapsto> 50, ''album'' \<mapsto> 20]"

definition get_batch_info :: "string \<Rightarrow> string list \<Rightarrow> nat \<Rightarrow> ('j world, 'j option) prog" where
  "get_batch_info item_type item_ids retries =
     (if item_type \<notin> set valid_types then raise (ValueError ''Invalid item_type'')
      else if item_ids = [] then return None
      else
        (case max_sizes item_type of
           None \<Rightarrow> raise KeyError
         | Some max_size \<Rightarrow>
             if length item_ids > max_size
             then raise (ValueError (''Max batch size for '' @ item_type @ ''s''))
             else fetch_attempts
                    (''https://api.spotify.com/v1/'' @ item_type @ ''s?ids='' @ join_ids item_ids)
                    retries 0))"

text \<open>The arguments of the backoff sleeps among the effects, and the number of requests.\<close>

fun backoff_waits :: "event list \<Rightarrow> rat list" where
  "backoff_waits [] = []"
| "backoff_waits (Backoff d # es) = d # backoff_waits es"
| "backoff_waits (e # es) = backoff_waits es"

fun requests_sent :: "event list \<Rightarrow> nat" where
  "requests_sent [] = 0"
| "requests_sent (HttpGet url # es) = Suc (requests_sent es)"
| "requests_sent (e # es) = requests_sent es"

section \<open>Fetching from MusicBrainz (\<open>get_artist_data_batch\<close>)\<close>

text \<open>
  An artist of the search response: its name, its \<open>area\<close> and \<open>begin-area\<close> objects (\<open>None\<close>
  when absent, null or empty, which is when \<open>or\<close> and the conditional take the other
  branch), each with an optional \<open>name\<close> and \<open>type\<close>, and the names of its tags (\<open>None\<close>
  when the key is absent or null).
\<close>

record area_info =
  area_name :: "string option"
  area_type :: "string option"

record mb_artist =
  mb_name :: string
  mb_area :: "area_info option"
  mb_begin_area :: "area_info option"
  mb_tags :: "string list option"

type_synonym fetched_data = "string \<rightharpoonup> ((string \<times> string) \<times> string list)"

text \<open>
  \<^verbatim>\<open>
  area_info = artist.get("area") or artist.get("begin-area")
  area_name = area_info.get("name", "Unknown") if area_info else "Unknown"
  area_type = area_info.get("type", "Unknown") if area_info else "Unknown"
  genres = [tag["name"] for tag in artist.get("tags", [])] if artist.get("tags") else ['Unknown']
  organized_data[name] = ((area_name, area_type), genres)
  \<close>
\<close>

definition extract_artist :: "mb_artist \<Rightarrow> (string \<times> string) \<times> string list" where
  "extract_artist artist =
     (let area_info = (case mb_area artist of Some a \<Rightarrow> Some a | None \<Rightarrow> mb_begin_area artist);
          name = (case area_info of
                    Some a \<Rightarrow> (case area_name a of Some n \<Rightarrow> n | None \<Rightarrow> ''Unknown'')
                  | None \<Rightarrow> ''Unknown'');
          type = (case area_info of
                    Some a \<Rightarrow> (case area_type a of Some n \<Rightarrow> n | None \<Rightarrow> ''Unknown'')
                  | None \<Rightarrow> ''Unknown'');
          genres = (case mb_tags artist of
                      None \<Rightarrow> [''Unknown'']
                    | Some tags \<Rightarrow> if tags = [] then [''Unknown''] else tags)
      in ((name, type), genres))"

fun organize :: "mb_artist list \<Rightarrow> fetched_data \<Rightarrow> fetched_data" where
  "organize [] organized_data = organized_data"
| "organize (artist # artists) organized_data =
     organize artists (organized_data(mb_name artist \<mapsto> extract_artist artist))"

text \<open>
  The retry loop, lines 25--60. \<open>HTTPError\<close> is a \<open>RequestException\<close>, so every failure
  takes the one \<open>except\<close> branch: a sleep of \<open>2 ** attempt + random.uniform(0, 1)\<close>.
\<close>

function mb_attempts :: "nat \<Rightarrow> nat \<Rightarrow> (mb_artist list world, fetched_data) prog" where
  "mb_attempts retries attempt w =
     (if attempt < retries then
        (case requests_get ''https://musicbrainz.org/ws/2/artist/'' w of
           (Ok data, w1) \<Rightarrow>
             (Inr (organize data Map.empty), w1\<lparr>timestamps := timestamps w1 @ [clock w1]\<rparr>)
         | (_, w1) \<Rightarrow>
             (case uniform01 w1 of
                (jitter, w2) \<Rightarrow>
                  bind (sleep Backoff (2 ^ attempt + jitter))
                    (\<lambda>_ w3. mb_attempts retries (Suc attempt) w3) w2))
      else (Inr Map.empty, w))"
  by pat_completeness auto
termination
  by (relation "measure (\<lambda>(retries, attempt, w). retries - attempt)") auto


section \<open>The relational store\<close>

text \<open>
  The rows of \<open>Track\<close>, \<open>Album\<close> and \<open>Artist\<close> without their \<open>id\<close>; \<open>None\<close> is SQL's NULL.
  The columns are those the statements of the two source files name (\<open>create_tables\<close> is
  marked deprecated and lacks \<open>area_id\<close>, \<open>retrieved_albums\<close> and the \<open>Area\<close> table).
\<close>

record track_row =
  t_name :: "string option"
  t_album_id :: "string option"
  t_duration :: "int option"
  t_popularity :: "int option"
  t_explicit :: "int option"
  t_track_number :: "int option"

record album_row =
  al_name :: "string option"
  al_release_date :: "string option"
  al_total_tracks :: "int option"
  al_label :: "string option"
  al_album_type :: "string option"
  al_popularity :: "int option"

record artist_row =
  ar_name :: "string option"
  ar_popularity :: "int option"
  ar_followers :: "int option"
  ar_area_id :: "nat option"
  ar_retrieved_albums :: "int option"

text \<open>
  A table is the list of its rows in insertion order, keyed by the text primary key
  \<open>id\<close>; a junction table is the list of its pairs. \<open>retrieved_albums_default\<close> is the
  value a new \<open>Artist\<close> row gets in the column \<open>retrieved_albums\<close>: the schema that declares
  it is not among the source files, so it is a parameter of the store.
\<close>

type_synonym 'r table = "(string \<times> 'r) list"

record store =
  Track :: "track_row table"
  Album :: "album_row table"
  Artist :: "artist_row table"
  Genre :: "(nat \<times> string) list"
  Area :: "(nat \<times> string \<times> string) list"
  TrackArtist :: "(string \<times> string) list"
  AlbumArtist :: "(string \<times> string) list"
  ArtistGenre :: "(string \<times> nat) list"
  retrieved_albums_default :: "int option"

definition ids :: "('k \<times> 'r) list \<Rightarrow> 'k set" where
  "ids tbl = fst ` set tbl"

text \<open>\<open>INSERT OR IGNORE\<close>: a row whose primary key is taken is not inserted.\<close>

definition insert_or_ignore :: "string \<Rightarrow> 'r \<Rightarrow> 'r table \<Rightarrow> 'r table" where
  "insert_or_ignore k r tbl = (if k \<in> ids tbl then tbl else tbl @ [(k, r)])"

text \<open>\<open>INSERT OR REPLACE\<close>: the row with the primary key is deleted, the new row inserted.\<close>

definition insert_or_replace :: "string \<Rightarrow> 'r \<Rightarrow> 'r table \<Rightarrow> 'r table" where
  "insert_or_replace k r tbl = filter (\<lambda>(k', _). k' \<noteq> k) tbl @ [(k, r)]"

text \<open>\<open>INSERT OR IGNORE\<close> into a junction table, whose primary key is the pair.\<close>

definition insert_edge :: "'a \<times> 'b \<Rightarrow> ('a \<times> 'b) list \<Rightarrow> ('a \<times> 'b) list" where
  "insert_edge e es = (if e \<in> set es then es else es @ [e])"

text \<open>
  A new integer key is one more than the largest in the table (no row of \<open>Genre\<close> or
  \<open>Area\<close> is ever deleted). No theorem below depends on the value.
\<close>

definition new_id :: "nat list \<Rightarrow> nat" where
  "new_id used = Suc (foldr max used 0)"

text \<open>
  \<open>INSERT OR IGNORE INTO Genre (name)\<close>, with \<open>name\<close> unique, and
  \<open>SELECT id FROM Genre WHERE name = ?\<close> with \<open>fetchone\<close>.
\<close>

definition insert_or_ignore_genre :: "string \<Rightarrow> (nat \<times> string) list \<Rightarrow> (nat \<times> string) list" where
  "insert_or_ignore_genre name g =
     (if name \<in> snd ` set g then g else g @ [(new_id (map fst g), name)])"

definition select_genre_id :: "string \<Rightarrow> (nat \<times> string) list \<Rightarrow> nat option" where
  "select_genre_id name g = map_option fst (find (\<lambda>(i, n). n = name) g)"



text \<open>The rows \<open>INSERT OR IGNORE INTO ... (id)\<close> makes: every other column at its default.\<close>

definition placeholder_track :: track_row where
  "placeholder_track = \<lparr>t_name = None, t_album_id = None, t_duration = None,
     t_popularity = None, t_explicit = None, t_track_number = None\<rparr>"

definition placeholder_album :: album_row where
  "placeholder_album = \<lparr>al_name = None, al_release_date = None, al_total_tracks = None,
     al_label = None, al_album_type = None, al_popularity = None\<rparr>"

definition placeholder_artist :: "store \<Rightarrow> artist_row" where
  "placeholder_artist db = \<lparr>ar_name = None, ar_popularity = None, ar_followers = None,
     ar_area_id = None, ar_retrieved_albums = retrieved_albums_default db\<rparr>"

section \<open>The persisters (\<open>dump_tracks\<close>, \<open>dump_albums\<close>, \<open>dump_artists\<close>)\<close>

text \<open>
  The records of the provider's responses, with the fields the persisters read, typed as
  the docstrings give them. Of the nested objects only the ids are read: \<open>trk_artists\<close> is
  \<open>[artist['id'] for artist in track['artists']]\<close>, \<open>trk_album\<close> is \<open>track['album']['id']\<close>,
  \<open>alb_tracks\<close> the ids of \<open>album['tracks']['items']\<close>, \<open>art_followers\<close> is
  \<open>artist['followers']['total']\<close>.
\<close>

record track =
  trk_id :: string
  trk_name :: string
  trk_artists :: "string list"
  trk_album :: string
  trk_duration_ms :: int
  trk_popularity :: int
  trk_explicit :: bool
  trk_track_number :: int

record album =
  alb_id :: string
  alb_name :: string
  alb_artists :: "string list"
  alb_release_date :: string
  alb_total_tracks :: int
  alb_label :: string
  alb_album_type :: string
  alb_popularity :: int
  alb_tracks :: "string list"

record artist =
  art_id :: string
  art_name :: string
  art_popularity :: int
  art_followers :: int
  art_genres :: "string list"

text \<open>
  The statements the persisters send through \<open>cursor.execute\<close>. The last one stands for
  lines 631--638: the \<open>SELECT\<close> of the genre's id, which changes nothing, and the insert
  into \<open>ArtistGenre\<close> with that id. The \<open>INSERT OR REPLACE\<close> into \<open>Artist\<close> names the
  columns \<open>id\<close>, \<open>name\<close>, \<open>popularity\<close> and \<open>followers\<close>: the row it inserts has \<open>area_id\<close>
  and \<open>retrieved_albums\<close> at their defaults, whatever the replaced row had.
\<close>

datatype stmt =
    InsertOrReplaceTrack string track_row
  | InsertOrIgnoreTrackArtist string string
  | InsertOrIgnoreArtist string
  | InsertOrIgnoreAlbum string
  | InsertOrReplaceAlbum string album_row
  | InsertOrIgnoreAlbumArtist string string
  | InsertOrIgnoreTrack string
  | InsertOrReplaceArtist string string int int
  | InsertOrIgnoreGenre string
  | InsertOrIgnoreArtistGenre string string

fun execute :: "stmt \<Rightarrow> (store, unit) prog" where
  "execute (InsertOrReplaceTrack k r) db =
     (Inr (), db\<lparr>Track := insert_or_replace k r (Track db)\<rparr>)"
| "execute (InsertOrIgnoreTrackArtist t a) db =
     (Inr (), db\<lparr>TrackArtist := insert_edge (t, a) (TrackArtist db)\<rparr>)"
| "execute (InsertOrIgnoreArtist k) db =
     (Inr (), db\<lparr>Artist := insert_or_ignore k (placeholder_artist db) (Artist db)\<rparr>)"
| "execute (InsertOrIgnoreAlbum k) db =
     (Inr (), db\<lparr>Album := insert_or_ignore k placeholder_album (Album db)\<rparr>)"
| "execute (InsertOrReplaceAlbum k r) db =
     (Inr (), db\<lparr>Album := insert_or_replace k r (Album db)\<rparr>)"
| "execute (InsertOrIgnoreAlbumArtist al a) db =
     (Inr (), db\<lparr>AlbumArtist := insert_edge (al, a) (AlbumArtist db)\<rparr>)"
| "execute (InsertOrIgnoreTrack k) db =
     (Inr (), db\<lparr>Track := insert_or_ignore k placeholder_track (Track db)\<rparr>)"
| "execute (InsertOrReplaceArtist k name popularity followers) db =
     (Inr (), db\<lparr>Artist := insert_or_replace k
        ((placeholder_artist db)\<lparr>ar_name := Some name, ar_popularity := Some popularity,
           ar_followers := Some followers\<rparr>) (Artist db)\<rparr>)"
| "execute (InsertOrIgnoreGenre name) db =
     (Inr (), db\<lparr>Genre := insert_or_ignore_genre name (Genre db)\<rparr>)"
| "execute (InsertOrIgnoreArtistGenre a name) db =
     (case select_genre_id name (Genre db) of
        None \<Rightarrow> (Inl TypeError, db)
      | Some genre_id \<Rightarrow> (Inr (), db\<lparr>ArtistGenre := insert_edge (a, genre_id) (ArtistGenre db)\<rparr>))"

fun run :: "stmt list \<Rightarrow> (store, unit) prog" where
  "run [] db = (Inr (), db)"
| "run (s # ss) db = bind (execute s) (\<lambda>_ db'. run ss db') db"

text \<open>The statements of one iteration of the loop of \<open>dump_tracks\<close> (lines 481--515).\<close>

definition track_stmts :: "track \<Rightarrow> stmt list" where
  "track_stmts track =
     InsertOrReplaceTrack (trk_id track)
       \<lparr>t_name = Some (trk_name track), t_album_id = Some (trk_album track),
        t_duration = Some (trk_duration_ms track), t_popularity = Some (trk_popularity track),
        t_explicit = Some (if trk_explicit track then 1 else 0),
        t_track_number = Some (trk_track_number track)\<rparr>
     # concat (map (\<lambda>artist_id.
          [InsertOrIgnoreTrackArtist (trk_id track) artist_id, InsertOrIgnoreArtist artist_id])
        (trk_artists track))
     @ [InsertOrIgnoreAlbum (trk_album track)]"

fun dump_tracks :: "track list \<Rightarrow> (store, unit) prog" where
  "dump_tracks [] db = (Inr (), db)"
| "dump_tracks (track # tracks) db =
     bind (run (track_stmts track)) (\<lambda>_ db'. dump_tracks tracks db') db"

text \<open>
  One iteration of the loop of \<open>dump_albums\<close> (lines 548--589), after the release date
  has been brought to ISO form.
\<close>

definition album_stmts :: "album \<Rightarrow> string \<Rightarrow> stmt list" where
  "album_stmts album release_date =
     InsertOrReplaceAlbum (alb_id album)
       \<lparr>al_name = Some (alb_name album), al_release_date = Some release_date,
        al_total_tracks = Some (alb_total_tracks album), al_label = Some (alb_label album),
        al_album_type = Some (alb_album_type album),
        al_popularity = Some (alb_popularity album)\<rparr>
     # concat (map (\<lambda>artist_id.
          [InsertOrIgnoreAlbumArtist (alb_id album) artist_id, InsertOrIgnoreArtist artist_id])
        (alb_artists album))
     @ map InsertOrIgnoreTrack (alb_tracks album)"

fun dump_albums :: "album list \<Rightarrow> (store, unit) prog" where
  "dump_albums [] db = (Inr (), db)"
| "dump_albums (album # albums) db =
     (case normalize_release_date (alb_release_date album) of
        Inl e \<Rightarrow> (Inl e, db)
      | Inr release_date \<Rightarrow>
          bind (run (album_stmts album release_date)) (\<lambda>_ db'. dump_albums albums db') db)"

text \<open>One iteration of the loop of \<open>dump_artists\<close> (lines 610--638).\<close>

definition artist_stmts :: "artist \<Rightarrow> stmt list" where
  "artist_stmts artist =
     InsertOrReplaceArtist (art_id artist) (art_name artist) (art_popularity artist)
       (art_followers artist)
     # concat (map (\<lambda>genre.
          [InsertOrIgnoreGenre genre, InsertOrIgnoreArtistGenre (art_id artist) genre])
        (art_genres artist))"

fun dump_artists :: "artist list \<Rightarrow> (store, unit) prog" where
  "dump_artists [] db = (Inr (), db)"
| "dump_artists (artist # artists) db =
     bind (run (artist_stmts artist)) (\<lambda>_ db'. dump_artists artists db') db"

text \<open>
  The junction rows with a referenced id that has no row: the state after a statement
  has a dangling foreign key when \<open>dangling\<close> is not empty.
\<close>

definition dangling :: "store \<Rightarrow> (string \<times> string) list \<times> (string \<times> string) list \<times> (string \<times> nat) list" where
  "dangling db =
     (filter (\<lambda>(t, a). t \<notin> ids (Track db) \<or> a \<notin> ids (Artist db)) (TrackArtist db),
      filter (\<lambda>(al, a). al \<notin> ids (Album db) \<or> a \<notin> ids (Artist db)) (AlbumArtist db),
      filter (\<lambda>(a, g). a \<notin> ids (Artist db) \<or> g \<notin> ids (Genre db)) (ArtistGenre db))"

definition dangling_count :: "store \<Rightarrow> nat" where
  "dangling_count db =
     (case dangling db of (ta, aa, ag) \<Rightarrow> length ta + length aa + length ag)"

text \<open>The state after the first \<open>n\<close> statements of a list.\<close>

definition after_prefix :: "nat \<Rightarrow> stmt list \<Rightarrow> store \<Rightarrow> store" where
  "after_prefix n stmts db = snd (run (take n stmts) db)"

text \<open>A store with no row at all.\<close>

definition empty_store :: store where
  "empty_store = \<lparr>Track = [], Album = [], Artist = [], Genre = [], Area = [],
     TrackArtist = [], AlbumArtist = [], ArtistGenre = [], retrieved_albums_default = Some 0\<rparr>"

section \<open>Saving the MusicBrainz data (\<open>save_artist_data_to_db\<close>)\<close>






text \<open>A store with the one artist \<open>a1\<close>, named but with no area and no genre yet.\<close>

definition store1 :: store where
  "store1 = empty_store\<lparr>Artist := [(''a1'',
     \<lparr>ar_name = Some ''Band'', ar_popularity = Some 50, ar_followers = Some 1200,
      ar_area_id = None, ar_retrieved_albums = Some 0\<rparr>)]\<rparr>"

section \<open>The end of a pass of the scheduler (lines 805--815)\<close>

text \<open>
  \<^verbatim>\<open>
  cursor.execute("SELECT COUNT(id) FROM Track WHERE name IS NULL")
  if cursor.fetchone()[0] > 0: continue
  cursor.execute("SELECT COUNT(id) FROM Album WHERE name IS NULL")
  if cursor.fetchone()[0] > 0: continue
  cursor.execute("SELECT COUNT(id) FROM Artist WHERE name IS NULL OR retrieved_albums = 0")
  if cursor.fetchone()[0] > 0: continue
  print("All items updated.")
  break
  \<close>
  In SQL \<open>retrieved_albums = 0\<close> is not true of a NULL.
\<close>

definition tracks_incomplete :: "store \<Rightarrow> nat" where
  "tracks_incomplete db = length (filter (\<lambda>(k, r). t_name r = None) (Track db))"

definition albums_incomplete :: "store \<Rightarrow> nat" where
  "albums_incomplete db = length (filter (\<lambda>(k, r). al_name r = None) (Album db))"

definition artists_incomplete :: "store \<Rightarrow> nat" where
  "artists_incomplete db =
     length (filter (\<lambda>(k, r). ar_name r = None \<or> ar_retrieved_albums r = Some 0) (Artist db))"

datatype flow = Continue | Break

definition end_of_pass :: "store \<Rightarrow> flow" where
  "end_of_pass db =
     (if tracks_incomplete db > 0 then Continue
      else if albums_incomplete db > 0 then Continue
      else if artists_incomplete db > 0 then Continue
      else Break)"

text \<open>
  The loop \<open>while True\<close> of lines 709--815. \<open>stages\<close> is what the stage loops of one pass
  (lines 710--803) do to the state of the process, of which \<open>db_of\<close> is the store; it is
  \<open>None\<close> when the pass raises, is interrupted or does not end, and then the loop does
  not reach its \<open>break\<close>. The loop returns only through the \<open>break\<close> of line 815.
\<close>

partial_function (option) main_loop :: "('w \<Rightarrow> 'w option) \<Rightarrow> ('w \<Rightarrow> store) \<Rightarrow> 'w \<Rightarrow> 'w option" where
  "main_loop stages db_of w =
     (case stages w of
        None \<Rightarrow> None
      | Some w' \<Rightarrow>
          (case end_of_pass (db_of w') of
             Continue \<Rightarrow> main_loop stages db_of w'
           | Break \<Rightarrow> Some w'))"

section \<open>Notions for the proofs\<close>

text \<open>The \<open>INSERT OR IGNORE\<close> statements, and the table each statement writes.\<close>

fun ignoring :: "stmt \<Rightarrow> bool" where
  "ignoring (InsertOrReplaceTrack k r) = False"
| "ignoring (InsertOrReplaceAlbum k r) = False"
| "ignoring (InsertOrReplaceArtist k n p f) = False"
| "ignoring s = True"

fun writes :: "stmt \<Rightarrow> string" where
  "writes (InsertOrReplaceTrack k r) = ''Track''"
| "writes (InsertOrIgnoreTrackArtist t a) = ''TrackArtist''"
| "writes (InsertOrIgnoreArtist k) = ''Artist''"
| "writes (InsertOrIgnoreAlbum k) = ''Album''"
| "writes (InsertOrReplaceAlbum k r) = ''Album''"
| "writes (InsertOrIgnoreAlbumArtist al a) = ''AlbumArtist''"
| "writes (InsertOrIgnoreTrack k) = ''Track''"
| "writes (InsertOrReplaceArtist k n p f) = ''Artist''"
| "writes (InsertOrIgnoreGenre n) = ''Genre''"
| "writes (InsertOrIgnoreArtistGenre a n) = ''ArtistGenre''"

text \<open>A statement that changes nothing.\<close>

definition settled :: "stmt \<Rightarrow> store \<Rightarrow> bool" where
  "settled s db \<longleftrightarrow> execute s db = (Inr (), db)"

text \<open>
  What no statement undoes: the keys of the entity tables, the pairs of the junction
  tables and the id a genre name selects stay.
\<close>

definition grows :: "store \<Rightarrow> store \<Rightarrow> bool" where
  "grows db db' \<longleftrightarrow>
     ids (Track db) \<subseteq> ids (Track db') \<and> ids (Album db) \<subseteq> ids (Album db') \<and>
     ids (Artist db) \<subseteq> ids (Artist db') \<and> ids (Genre db) \<subseteq> ids (Genre db') \<and>
     snd ` set (Genre db) \<subseteq> snd ` set (Genre db') \<and>
     (\<forall>n i. select_genre_id n (Genre db) = Some i \<longrightarrow> select_genre_id n (Genre db') = Some i) \<and>
     set (TrackArtist db) \<subseteq> set (TrackArtist db') \<and> set (AlbumArtist db) \<subseteq> set (AlbumArtist db') \<and>
     set (ArtistGenre db) \<subseteq> set (ArtistGenre db') \<and>
     retrieved_albums_default db' = retrieved_albums_default db"

text \<open>Every junction row references rows that exist.\<close>

definition no_dangling :: "store \<Rightarrow> bool" where
  "no_dangling db \<longleftrightarrow>
     (\<forall>(t, a)\<in>set (TrackArtist db). t \<in> ids (Track db) \<and> a \<in> ids (Artist db)) \<and>
     (\<forall>(al, a)\<in>set (AlbumArtist db). al \<in> ids (Album db) \<and> a \<in> ids (Artist db)) \<and>
     (\<forall>(a, g)\<in>set (ArtistGenre db). a \<in> ids (Artist db) \<and> g \<in> ids (Genre db))"

text \<open>
  The records of the spec's end-to-end scenario: track \<open>t1\<close> of album \<open>al1\<close> by artist
  \<open>a1\<close>.
\<close>

definition track1 :: track where
  "track1 = \<lparr>trk_id = ''t1'', trk_name = ''Song'', trk_artists = [''a1''], trk_album = ''al1'',
     trk_duration_ms = 215000, trk_popularity = 40, trk_explicit = False, trk_track_number = 1\<rparr>"

definition album1 :: album where
  "album1 = \<lparr>alb_id = ''al1'', alb_name = ''Record'', alb_artists = [''a1''],
     alb_release_date = ''2001-05'', alb_total_tracks = 2, alb_label = ''Label'',
     alb_album_type = ''album'', alb_popularity = 30, alb_tracks = [''t1'', ''t2'']\<rparr>"

definition artist1 :: artist where
  "artist1 = \<lparr>art_id = ''a1'', art_name = ''Band'', art_popularity = 50, art_followers = 1200,
     art_genres = [''jazz'', ''soul'']\<rparr>"



text \<open>The store \<open>store1\<close> once the albums of its artist have been retrieved.\<close>

definition store2 :: store where
  "store2 = store1\<lparr>Artist := [(''a1'',
     \<lparr>ar_name = Some ''Band'', ar_popularity = Some 50, ar_followers = Some 1200,
      ar_area_id = None, ar_retrieved_albums = Some 1\<rparr>)]\<rparr>"

text \<open>The state after \<open>m\<close> calls in a row from the fresh module.\<close>

definition burst :: "nat \<Rightarrow> 'j world \<Rightarrow> bool" where
  "burst m w \<longleftrightarrow>
     halfmin_timestamps w = map (\<lambda>k. of_nat k / 10) [0..<m] \<and>
     hourly_timestamps w = map (\<lambda>k. of_nat k / 10) [0..<m] \<and>
     daily_timestamps w = map (\<lambda>k. of_nat k / 10) [0..<m] \<and>
     clock w = of_nat m / 10"

section \<open>Theorems\<close>

subsection \<open>Release dates\<close>

text \<open>
  Claim C7. Release-date normalization in \<open>dump_albums\<close> maps an input of length 4 to
  the input followed by \<open>-01-01\<close>, an input of length 7 to the input followed by \<open>-01\<close>,
  leaves an input of length 10 unchanged, and raises the invalid-release-date
  \<open>ValueError\<close> for every input of any other length.
\<close>

theorem normalize_release_date_spec:
  "(length d = 4 \<longrightarrow> normalize_release_date d = Inr (d @ ''-01-01'')) \<and>
   (length d = 7 \<longrightarrow> normalize_release_date d = Inr (d @ ''-01'')) \<and>
   (length d = 10 \<longrightarrow> normalize_release_date d = Inr d) \<and>
   (length d \<noteq> 4 \<and> length d \<noteq> 7 \<and> length d \<noteq> 10 \<longrightarrow>
      normalize_release_date d = Inl (ValueError (''Invalid release date: '' @ d)))"
  by (simp add: normalize_release_date_def)

theorem normalize_release_date_spec_witness:
  "normalize_release_date ''2001'' = Inr ''2001-01-01'' \<and>
   normalize_release_date ''2001-05'' = Inr ''2001-05-01'' \<and>
   normalize_release_date ''2001-05-17'' = Inr ''2001-05-17'' \<and>
   normalize_release_date ''01/05/2001 '' = Inl (ValueError ''Invalid release date: 01/05/2001 '')"
  using normalize_release_date_spec [of "''2001''"]
    normalize_release_date_spec [of "''2001-05''"]
    normalize_release_date_spec [of "''2001-05-17''"]
    normalize_release_date_spec [of "''01/05/2001 ''"]
  by simp

subsection \<open>The rate limiter\<close>

lemma filter_length_mono:
  "(\<And>x. x \<in> set xs \<Longrightarrow> P x \<Longrightarrow> Q x) \<Longrightarrow> length (filter P xs) \<le> length (filter Q xs)"
  by (induction xs) auto

lemma in_window_mono: "c \<le> c' \<Longrightarrow> in_window dur c' dq \<le> in_window dur c dq"
  unfolding in_window_def by (rule filter_length_mono) simp

lemma evict_sorted: "sorted dq \<Longrightarrow> evict dur c dq = filter (\<lambda>x. c - x \<le> dur) dq"
proof (induction dq)
  case Nil
  then show ?case by simp
next
  case (Cons t ts)
  show ?case
  proof (cases "c - t > dur")
    case True
    with Cons show ?thesis by simp
  next
    case False
    from Cons.prems have "\<forall>x\<in>set ts. t \<le> x" by simp
    with False have "\<forall>x\<in>set ts. c - x \<le> dur" by auto
    then have "filter (\<lambda>x. c - x \<le> dur) ts = ts" by simp
    with False show ?thesis by simp
  qed
qed

lemma evict_head: "evict dur c dq = t0 # rest \<Longrightarrow> c - t0 \<le> dur"
  by (induction dq) (auto split: if_splits)

lemma window_wait_effect:
  assumes "0 < cap" and "\<And>t0 rest. dq = t0 # rest \<Longrightarrow> c - t0 \<le> dur"
  shows "\<exists>d tr. window_wait cap dur c dq w = (Inr (), w\<lparr>clock := clock w + d, trace := tr\<rparr>) \<and> 0 \<le> d \<and>
           (cap \<le> length dq \<longrightarrow> (\<exists>t0 rest. dq = t0 # rest \<and> d = dur - (c - t0) + 1))"
proof (cases "cap \<le> length dq")
  case False
  then have "window_wait cap dur c dq w = (Inr (), w\<lparr>clock := clock w + 0, trace := trace w\<rparr>)"
    by (simp add: window_wait_def return_def)
  with False show ?thesis by fastforce
next
  case True
  with assms(1) obtain t0 rest where dq: "dq = t0 # rest" by (cases dq) auto
  with assms(2) have "c - t0 \<le> dur" by simp
  then have "\<not> dur - (c - t0) + 1 < 0" by simp
  with True dq have "window_wait cap dur c dq w =
      (Inr (), w\<lparr>clock := clock w + (dur - (c - t0) + 1), trace := trace w @ [WindowWait (dur - (c - t0) + 1)]\<rparr>)"
    by (simp add: window_wait_def sleep_def)
  moreover from \<open>c - t0 \<le> dur\<close> have "0 \<le> dur - (c - t0) + 1" by simp
  ultimately show ?thesis using dq by blast
qed

lemma backoff_waits_append: "backoff_waits (es @ fs) = backoff_waits es @ backoff_waits fs"
  by (induction es rule: backoff_waits.induct) simp_all

lemma requests_sent_append: "requests_sent (es @ fs) = requests_sent es + requests_sent fs"
  by (induction es rule: requests_sent.induct) simp_all

lemma window_wait_trace:
  "window_wait cap dur c dq w = (Inr (), w') \<Longrightarrow>
     backoff_waits (trace w') = backoff_waits (trace w) \<and>
     requests_sent (trace w') = requests_sent (trace w)"
  by (auto simp: window_wait_def sleep_def return_def raise_def backoff_waits_append
      requests_sent_append split: if_splits list.splits)

lemma check_rate_limit_effect:
  fixes w :: "'j world"
  defines "c \<equiv> clock w"
  defines "e1 \<equiv> evict 30 c (halfmin_timestamps w)"
  defines "e2 \<equiv> evict 3600 c (hourly_timestamps w)"
  defines "e3 \<equiv> evict 86400 c (daily_timestamps w)"
  shows "\<exists>w' d1 d2 d3. check_rate_limit w = (Inr (), w') \<and>
           halfmin_timestamps w' = e1 @ [c] \<and> hourly_timestamps w' = e2 @ [c] \<and>
           daily_timestamps w' = e3 @ [c] \<and> total_requests w' = total_requests w + 1 \<and>
           clock w' = c + 1 / 10 + d1 + d2 + d3 \<and> 0 \<le> d1 \<and> 0 \<le> d2 \<and> 0 \<le> d3 \<and>
           (MAX_REQUESTS_PER_30_SEC \<le> length e1 \<longrightarrow> (\<exists>t0 rest. e1 = t0 # rest \<and> d1 = 30 - (c - t0) + 1)) \<and>
           (MAX_REQUESTS_PER_HOUR \<le> length e2 \<longrightarrow> (\<exists>t0 rest. e2 = t0 # rest \<and> d2 = 3600 - (c - t0) + 1)) \<and>
           (MAX_REQUESTS_PER_DAY \<le> length e3 \<longrightarrow> (\<exists>t0 rest. e3 = t0 # rest \<and> d3 = 86400 - (c - t0) + 1)) \<and>
           http w' = http w \<and> rng w' = rng w \<and> timestamps w' = timestamps w \<and>
           backoff_waits (trace w') = backoff_waits (trace w) \<and>
           requests_sent (trace w') = requests_sent (trace w)"
proof -
  define w1 where "w1 = w\<lparr>halfmin_timestamps := e1, hourly_timestamps := e2, daily_timestamps := e3\<rparr>"
  define w2 where "w2 = w1\<lparr>clock := clock w1 + 1 / 10, trace := trace w1 @ [BaseWait (1 / 10)]\<rparr>"
  have s0: "sleep BaseWait base_wait w1 = (Inr (), w2)"
    by (simp add: sleep_def base_wait_def w2_def)
  obtain d1 tr1 where s1: "window_wait MAX_REQUESTS_PER_30_SEC 30 c e1 w2 = (Inr (), w2\<lparr>clock := clock w2 + d1, trace := tr1\<rparr>)"
    and d1: "0 \<le> d1" "MAX_REQUESTS_PER_30_SEC \<le> length e1 \<longrightarrow> (\<exists>t0 rest. e1 = t0 # rest \<and> d1 = 30 - (c - t0) + 1)"
    using window_wait_effect [of MAX_REQUESTS_PER_30_SEC e1 c 30 w2] evict_head [of 30 c "halfmin_timestamps w"]
    unfolding e1_def MAX_REQUESTS_PER_30_SEC_def by auto
  define w3 where "w3 = w2\<lparr>clock := clock w2 + d1, trace := tr1\<rparr>"
  obtain d2 tr2 where s2: "window_wait MAX_REQUESTS_PER_HOUR 3600 c e2 w3 = (Inr (), w3\<lparr>clock := clock w3 + d2, trace := tr2\<rparr>)"
    and d2: "0 \<le> d2" "MAX_REQUESTS_PER_HOUR \<le> length e2 \<longrightarrow> (\<exists>t0 rest. e2 = t0 # rest \<and> d2 = 3600 - (c - t0) + 1)"
    using window_wait_effect [of MAX_REQUESTS_PER_HOUR e2 c 3600 w3] evict_head [of 3600 c "hourly_timestamps w"]
    unfolding e2_def MAX_REQUESTS_PER_HOUR_def by auto
  define w4 where "w4 = w3\<lparr>clock := clock w3 + d2, trace := tr2\<rparr>"
  obtain d3 tr3 where s3: "window_wait MAX_REQUESTS_PER_DAY 86400 c e3 w4 = (Inr (), w4\<lparr>clock := clock w4 + d3, trace := tr3\<rparr>)"
    and d3: "0 \<le> d3" "MAX_REQUESTS_PER_DAY \<le> length e3 \<longrightarrow> (\<exists>t0 rest. e3 = t0 # rest \<and> d3 = 86400 - (c - t0) + 1)"
    using window_wait_effect [of MAX_REQUESTS_PER_DAY e3 c 86400 w4] evict_head [of 86400 c "daily_timestamps w"]
    unfolding e3_def MAX_REQUESTS_PER_DAY_def by auto
  define w5 where "w5 = w4\<lparr>clock := clock w4 + d3, trace := tr3\<rparr>"
  define w6 where "w6 = w5\<lparr>halfmin_timestamps := halfmin_timestamps w5 @ [c],
             hourly_timestamps := hourly_timestamps w5 @ [c],
             daily_timestamps := daily_timestamps w5 @ [c],
             total_requests := total_requests w5 + 1\<rparr>"
  have "check_rate_limit w = (Inr (), w6)"
    unfolding check_rate_limit_def Let_def c_def [symmetric] e1_def [symmetric] e2_def [symmetric] e3_def [symmetric]
      w1_def [symmetric]
    using s0 s1 s2 s3
    by (simp add: bind_def w1_def w3_def [symmetric] w4_def [symmetric] w5_def [symmetric] w6_def)
  moreover have "halfmin_timestamps w6 = e1 @ [c]" "hourly_timestamps w6 = e2 @ [c]"
    "daily_timestamps w6 = e3 @ [c]" "total_requests w6 = total_requests w + 1"
    "clock w6 = c + 1 / 10 + d1 + d2 + d3"
    "http w6 = http w" "rng w6 = rng w" "timestamps w6 = timestamps w"
    by (simp_all add: w6_def w5_def w4_def w3_def w2_def w1_def c_def)
  moreover have "backoff_waits (trace w6) = backoff_waits (trace w) \<and>
      requests_sent (trace w6) = requests_sent (trace w)"
  proof -
    have t2: "backoff_waits (trace w2) = backoff_waits (trace w) \<and> requests_sent (trace w2) = requests_sent (trace w)"
      by (simp add: w2_def w1_def backoff_waits_append requests_sent_append)
    from window_wait_trace [OF s1] have t3: "backoff_waits (trace w3) = backoff_waits (trace w2) \<and>
        requests_sent (trace w3) = requests_sent (trace w2)" by (simp add: w3_def)
    from window_wait_trace [OF s2] have t4: "backoff_waits (trace w4) = backoff_waits (trace w3) \<and>
        requests_sent (trace w4) = requests_sent (trace w3)" by (simp add: w4_def)
    from window_wait_trace [OF s3] have t5: "backoff_waits (trace w5) = backoff_waits (trace w4) \<and>
        requests_sent (trace w5) = requests_sent (trace w4)" by (simp add: w5_def)
    have "trace w6 = trace w5" by (simp add: w6_def)
    with t2 t3 t4 t5 show ?thesis by simp
  qed
  ultimately show ?thesis using d1 d2 d3 by blast
qed

lemma window_ok_step:
  assumes ok: "window_ok cap dur c0 dq" and "0 < cap" and "c0 \<le> c" and "c \<le> c'"
    and wait: "cap \<le> length (evict dur c dq) \<longrightarrow>
       (\<exists>t0 rest. evict dur c dq = t0 # rest \<and> c + (dur - (c - t0) + 1) \<le> c')"
  shows "window_ok cap dur c' (evict dur c dq @ [c])"
proof -
  let ?e = "evict dur c dq"
  from ok have srt: "sorted dq" and le: "list_all (\<lambda>x. x \<le> c0) dq" and cnt: "in_window dur c0 dq \<le> cap"
    by (simp_all add: window_ok_def)
  have e: "?e = filter (\<lambda>x. c - x \<le> dur) dq" using srt by (rule evict_sorted)
  have len: "length ?e \<le> cap"
    using in_window_mono [OF \<open>c0 \<le> c\<close>, of dur dq] cnt by (simp add: e in_window_def)
  have lec: "\<forall>x\<in>set ?e. x \<le> c" using le \<open>c0 \<le> c\<close> by (auto simp: e list_all_iff)
  have "sorted ?e" unfolding e using srt by (rule sorted_wrt_filter)
  with lec have s: "sorted (?e @ [c])" by (simp add: sorted_append)
  from lec \<open>c \<le> c'\<close> have a: "list_all (\<lambda>x. x \<le> c') (?e @ [c])" by (auto simp: list_all_iff)
  have "in_window dur c' (?e @ [c]) \<le> cap"
  proof (cases "cap \<le> length ?e")
    case False
    have "in_window dur c' (?e @ [c]) \<le> length (?e @ [c])" unfolding in_window_def by (rule length_filter_le)
    with False show ?thesis by simp
  next
    case True
    with wait obtain t0 rest where tr: "?e = t0 # rest" and w: "c + (dur - (c - t0) + 1) \<le> c'" by blast
    from w have "\<not> c' - t0 \<le> dur" by simp
    then have "in_window dur c' (?e @ [c]) = in_window dur c' (rest @ [c])"
      by (simp add: tr in_window_def)
    also have "\<dots> \<le> length (rest @ [c])" unfolding in_window_def by (rule length_filter_le)
    also have "\<dots> = length ?e" by (simp add: tr)
    finally show ?thesis using len by simp
  qed
  with s a show ?thesis by (simp add: window_ok_def)
qed

lemma check_rate_limit_ok:
  fixes w0 :: "'j world"
  assumes "limiter_ok w0" and "clock w0 \<le> clock w" and "halfmin_timestamps w = halfmin_timestamps w0"
    and "hourly_timestamps w = hourly_timestamps w0" and "daily_timestamps w = daily_timestamps w0"
  shows "\<exists>w'. check_rate_limit w = (Inr (), w') \<and> limiter_ok w'"
proof -
  from check_rate_limit_effect [of w] obtain w' d1 d2 d3 where
    r: "check_rate_limit w = (Inr (), w')"
    and h: "halfmin_timestamps w' = evict 30 (clock w) (halfmin_timestamps w) @ [clock w]"
      "hourly_timestamps w' = evict 3600 (clock w) (hourly_timestamps w) @ [clock w]"
      "daily_timestamps w' = evict 86400 (clock w) (daily_timestamps w) @ [clock w]"
    and c: "clock w' = clock w + 1 / 10 + d1 + d2 + d3" and d: "0 \<le> d1" "0 \<le> d2" "0 \<le> d3"
    and w1: "MAX_REQUESTS_PER_30_SEC \<le> length (evict 30 (clock w) (halfmin_timestamps w)) \<longrightarrow>
       (\<exists>t0 rest. evict 30 (clock w) (halfmin_timestamps w) = t0 # rest \<and> d1 = 30 - (clock w - t0) + 1)"
    and w2: "MAX_REQUESTS_PER_HOUR \<le> length (evict 3600 (clock w) (hourly_timestamps w)) \<longrightarrow>
       (\<exists>t0 rest. evict 3600 (clock w) (hourly_timestamps w) = t0 # rest \<and> d2 = 3600 - (clock w - t0) + 1)"
    and w3: "MAX_REQUESTS_PER_DAY \<le> length (evict 86400 (clock w) (daily_timestamps w)) \<longrightarrow>
       (\<exists>t0 rest. evict 86400 (clock w) (daily_timestamps w) = t0 # rest \<and> d3 = 86400 - (clock w - t0) + 1)"
    by blast
  from c d have cc: "clock w \<le> clock w'" by simp
  have "window_ok MAX_REQUESTS_PER_30_SEC 30 (clock w') (halfmin_timestamps w')"
    unfolding h
  proof (rule window_ok_step [where ?c0.0 = "clock w0"])
    show "window_ok MAX_REQUESTS_PER_30_SEC 30 (clock w0) (halfmin_timestamps w)"
      using assms by (simp add: limiter_ok_def)
    show "0 < MAX_REQUESTS_PER_30_SEC" by (simp add: MAX_REQUESTS_PER_30_SEC_def)
    show "MAX_REQUESTS_PER_30_SEC \<le> length (evict 30 (clock w) (halfmin_timestamps w)) \<longrightarrow>
       (\<exists>t0 rest. evict 30 (clock w) (halfmin_timestamps w) = t0 # rest \<and> clock w + (30 - (clock w - t0) + 1) \<le> clock w')"
      using w1 c d by auto
  qed (use assms cc in simp_all)
  moreover have "window_ok MAX_REQUESTS_PER_HOUR 3600 (clock w') (hourly_timestamps w')"
    unfolding h
  proof (rule window_ok_step [where ?c0.0 = "clock w0"])
    show "window_ok MAX_REQUESTS_PER_HOUR 3600 (clock w0) (hourly_timestamps w)"
      using assms by (simp add: limiter_ok_def)
    show "0 < MAX_REQUESTS_PER_HOUR" by (simp add: MAX_REQUESTS_PER_HOUR_def)
    show "MAX_REQUESTS_PER_HOUR \<le> length (evict 3600 (clock w) (hourly_timestamps w)) \<longrightarrow>
       (\<exists>t0 rest. evict 3600 (clock w) (hourly_timestamps w) = t0 # rest \<and> clock w + (3600 - (clock w - t0) + 1) \<le> clock w')"
      using w2 c d by auto
  qed (use assms cc in simp_all)
  moreover have "window_ok MAX_REQUESTS_PER_DAY 86400 (clock w') (daily_timestamps w')"
    unfolding h
  proof (rule window_ok_step [where ?c0.0 = "clock w0"])
    show "window_ok MAX_REQUESTS_PER_DAY 86400 (clock w0) (daily_timestamps w)"
      using assms by (simp add: limiter_ok_def)
    show "0 < MAX_REQUESTS_PER_DAY" by (simp add: MAX_REQUESTS_PER_DAY_def)
    show "MAX_REQUESTS_PER_DAY \<le> length (evict 86400 (clock w) (daily_timestamps w)) \<longrightarrow>
       (\<exists>t0 rest. evict 86400 (clock w) (daily_timestamps w) = t0 # rest \<and> clock w + (86400 - (clock w - t0) + 1) \<le> clock w')"
      using w3 c d by auto
  qed (use assms cc in simp_all)
  ultimately show ?thesis using r by (auto simp: limiter_ok_def)
qed

lemma rate_limited_calls_ok:
  fixes w :: "'j world"
  shows "limiter_ok w \<Longrightarrow> \<forall>d\<in>set ds. 0 \<le> d \<Longrightarrow> \<exists>w'. rate_limited_calls ds w = (Inr (), w') \<and> limiter_ok w'"
proof (induction ds arbitrary: w)
  case Nil
  then show ?case by (simp add: return_def)
next
  case (Cons d ds)
  from Cons.prems have "0 \<le> d" by simp
  then have "\<exists>w1. check_rate_limit (elapse d w) = (Inr (), w1) \<and> limiter_ok w1"
    using Cons.prems(1) by (intro check_rate_limit_ok [of w]) (simp_all add: elapse_def)
  then obtain w1 where 1: "check_rate_limit (elapse d w) = (Inr (), w1)" and 2: "limiter_ok w1" by blast
  from Cons.IH [OF 2] Cons.prems obtain w' where "rate_limited_calls ds w1 = (Inr (), w')" "limiter_ok w'"
    by auto
  with 1 show ?case by (simp add: bind_def)
qed

lemma fresh_ok: "fresh w \<Longrightarrow> limiter_ok w"
  by (simp add: fresh_def limiter_ok_def window_ok_def in_window_def)

text \<open>
  Claim C1. For every sequence of calls of \<open>check_rate_limit\<close> from the freshly imported
  module, with any non-negative time passing before each call, every call returns, and
  at every instant \<open>t\<close> from the return of the last call on, the recorded timestamps of
  each window that lie within that window's duration of \<open>t\<close> (30 s, 1 h, 24 h) number at
  most the window's cap (40, 2500, 4500). (Every prefix of a sequence is a sequence, so
  this covers the instants between calls; within a call the deques only shrink before
  the final append.) The count is of the timestamps inside the window, not the length of
  the deque: a call that waited appends its timestamp to a deque that still holds the
  expired oldest entry.
\<close>

theorem check_rate_limit_caps:
  fixes w :: "'j world"
  assumes "fresh w" and "\<forall>d\<in>set ds. 0 \<le> d"
  shows "\<exists>w'. rate_limited_calls ds w = (Inr (), w') \<and>
     (\<forall>t\<ge>clock w'.
        in_window 30 t (halfmin_timestamps w') \<le> MAX_REQUESTS_PER_30_SEC \<and>
        in_window 3600 t (hourly_timestamps w') \<le> MAX_REQUESTS_PER_HOUR \<and>
        in_window 86400 t (daily_timestamps w') \<le> MAX_REQUESTS_PER_DAY)"
proof -
  from rate_limited_calls_ok [OF fresh_ok [OF assms(1)] assms(2)]
  obtain w' where r: "rate_limited_calls ds w = (Inr (), w')" and ok: "limiter_ok w'" by blast
  have "in_window 30 t (halfmin_timestamps w') \<le> MAX_REQUESTS_PER_30_SEC \<and>
        in_window 3600 t (hourly_timestamps w') \<le> MAX_REQUESTS_PER_HOUR \<and>
        in_window 86400 t (daily_timestamps w') \<le> MAX_REQUESTS_PER_DAY" if "clock w' \<le> t" for t
    using ok in_window_mono [OF that, of 30 "halfmin_timestamps w'"]
      in_window_mono [OF that, of 3600 "hourly_timestamps w'"]
      in_window_mono [OF that, of 86400 "daily_timestamps w'"]
    by (simp add: limiter_ok_def window_ok_def)
  with r show ?thesis by blast
qed

theorem check_rate_limit_caps_witness:
  "fresh (world0 :: unit world) \<and>
   (\<exists>w'. rate_limited_calls [0, 1, 1 / 2] (world0 :: unit world) = (Inr (), w') \<and>
     (\<forall>t\<ge>clock w'.
        in_window 30 t (halfmin_timestamps w') \<le> MAX_REQUESTS_PER_30_SEC \<and>
        in_window 3600 t (hourly_timestamps w') \<le> MAX_REQUESTS_PER_HOUR \<and>
        in_window 86400 t (daily_timestamps w') \<le> MAX_REQUESTS_PER_DAY))"
  using check_rate_limit_caps [of "world0 :: unit world" "[0, 1, 1 / 2]"]
  by (simp add: fresh_def world0_def)

subsection \<open>The fetchers\<close>

declare fetch_attempts.simps [simp del] mb_attempts.simps [simp del]

text \<open>
  Claim C8. \<open>get_batch_info\<close> raises a \<open>ValueError\<close> and leaves the globals and the
  environment as they were (no request sent, no timestamp recorded, no sleep) whenever
  the item kind is not one of track, album and artist, and whenever the id list is longer
  than the kind's maximum, which is 50 for tracks and artists and 20 for albums. The
  list is never cut down to the maximum.
\<close>

theorem get_batch_info_rejects:
  "max_sizes ''track'' = Some 50 \<and> max_sizes ''artist'' = Some 50 \<and> max_sizes ''album'' = Some 20 \<and>
   (item_type \<notin> set [''track'', ''album'', ''artist''] \<longrightarrow>
      get_batch_info item_type item_ids retries w = (Inl (ValueError ''Invalid item_type''), w)) \<and>
   (item_type \<in> set [''track'', ''album'', ''artist''] \<longrightarrow>
      (\<forall>max_size. max_sizes item_type = Some max_size \<and> max_size < length item_ids \<longrightarrow>
         get_batch_info item_type item_ids retries w =
           (Inl (ValueError (''Max batch size for '' @ item_type @ ''s'')), w)))"
  by (auto simp: get_batch_info_def raise_def max_sizes_def valid_types_def)

theorem get_batch_info_rejects_witness:
  "get_batch_info ''playlist'' [''p1''] 3 (world0 :: unit world) =
     (Inl (ValueError ''Invalid item_type''), world0) \<and>
   get_batch_info ''playlist'' [] 3 (world0 :: unit world) =
     (Inl (ValueError ''Invalid item_type''), world0) \<and>
   get_batch_info ''album'' (replicate 21 ''x'') 3 (world0 :: unit world) =
     (Inl (ValueError ''Max batch size for albums''), world0) \<and>
   get_batch_info ''track'' (replicate 51 ''x'') 3 (world0 :: unit world) =
     (Inl (ValueError ''Max batch size for tracks''), world0)"
  using get_batch_info_rejects [of "''playlist''" "[''p1'']" 3 "world0 :: unit world"]
    get_batch_info_rejects [of "''playlist''" "[]" 3 "world0 :: unit world"]
    get_batch_info_rejects [of "''album''" "replicate 21 ''x''" 3 "world0 :: unit world"]
    get_batch_info_rejects [of "''track''" "replicate 51 ''x''" 3 "world0 :: unit world"]
  by (simp add: max_sizes_def)

text \<open>
  Claim C10. For every valid item kind, \<open>get_batch_info\<close> called with an empty id list
  returns \<open>None\<close> and leaves the globals and the environment as they were: no request
  is sent, no timestamp is recorded and the request counter is not incremented.
\<close>

theorem get_batch_info_empty:
  "item_type \<in> set [''track'', ''album'', ''artist''] \<Longrightarrow>
     get_batch_info item_type [] retries w = (Inr None, w)"
  by (simp add: get_batch_info_def return_def valid_types_def)

theorem get_batch_info_empty_witness:
  "get_batch_info ''artist'' [] 3 (world0 :: unit world) = (Inr None, world0) \<and>
   total_requests (snd (get_batch_info ''artist'' [] 3 (world0 :: unit world))) = 0"
  using get_batch_info_empty [of "''artist''" 3 "world0 :: unit world"]
  by (simp add: world0_def)

lemma requests_get_effect:
  "\<exists>r w1. requests_get url w = (r, w1) \<and> r = (case http w of [] \<Rightarrow> RequestError | x # _ \<Rightarrow> x) \<and>
     http w1 = tl (http w) \<and> rng w1 = rng w \<and> clock w1 = clock w \<and> timestamps w1 = timestamps w \<and>
     backoff_waits (trace w1) = backoff_waits (trace w) \<and>
     requests_sent (trace w1) = Suc (requests_sent (trace w))"
  by (cases "http w") (simp_all add: requests_get_def backoff_waits_append requests_sent_append)

lemma sleep_backoff_effect:
  "0 \<le> d \<Longrightarrow> \<exists>w1. sleep Backoff d w = (Inr (), w1) \<and> http w1 = http w \<and> rng w1 = rng w \<and>
     timestamps w1 = timestamps w \<and>
     backoff_waits (trace w1) = backoff_waits (trace w) @ [d] \<and>
     requests_sent (trace w1) = requests_sent (trace w)"
  by (simp add: sleep_def backoff_waits_append requests_sent_append)

lemma fetch_attempts_failure_step:
  fixes w :: "'j world"
  assumes a: "attempt < retries"
    and r: "(case http w of [] \<Rightarrow> RequestError | x # _ \<Rightarrow> x) = r"
    and f: "r = RequestError \<or> (\<exists>status retry_after. r = HttpError status retry_after \<and> status \<noteq> 429)"
  shows "\<exists>w1. fetch_attempts url retries attempt w = fetch_attempts url retries (Suc attempt) w1 \<and>
           http w1 = tl (http w) \<and> rng w1 = rng w \<and>
           backoff_waits (trace w1) = backoff_waits (trace w) @ [2 ^ attempt] \<and>
           requests_sent (trace w1) = Suc (requests_sent (trace w))"
proof -
  from check_rate_limit_effect [of w] obtain wa where
    1: "check_rate_limit w = (Inr (), wa)" and e1: "http wa = http w" "rng wa = rng w"
      "backoff_waits (trace wa) = backoff_waits (trace w)" "requests_sent (trace wa) = requests_sent (trace w)"
    by blast
  from requests_get_effect [of url wa] r e1 obtain wb where
    2: "requests_get url wa = (r, wb)" and e2: "http wb = tl (http w)" "rng wb = rng w"
      "backoff_waits (trace wb) = backoff_waits (trace w)" "requests_sent (trace wb) = Suc (requests_sent (trace w))"
    by auto
  from sleep_backoff_effect [of "2 ^ attempt" wb] obtain wc where
    3: "sleep Backoff (2 ^ attempt) wb = (Inr (), wc)" and e3: "http wc = http wb" "rng wc = rng wb"
      "backoff_waits (trace wc) = backoff_waits (trace wb) @ [2 ^ attempt]"
      "requests_sent (trace wc) = requests_sent (trace wb)"
    by auto
  have "fetch_attempts url retries attempt w = fetch_attempts url retries (Suc attempt) wc"
    using f a 1 2 3 by (subst fetch_attempts.simps) (auto simp: bind_def return_def)
  with e2 e3 show ?thesis by auto
qed

lemma fetch_attempts_success:
  fixes w :: "'j world"
  assumes a: "attempt < retries" and r: "http w = Ok j # rest"
  shows "\<exists>w1. fetch_attempts url retries attempt w = (Inr (Some j), w1) \<and>
           backoff_waits (trace w1) = backoff_waits (trace w) \<and>
           requests_sent (trace w1) = Suc (requests_sent (trace w))"
proof -
  from check_rate_limit_effect [of w] obtain wa where
    1: "check_rate_limit w = (Inr (), wa)" and e1: "http wa = http w"
      "backoff_waits (trace wa) = backoff_waits (trace w)" "requests_sent (trace wa) = requests_sent (trace w)"
    by blast
  from requests_get_effect [of url wa] r e1 obtain wb where
    2: "requests_get url wa = (Ok j, wb)" and e2:
      "backoff_waits (trace wb) = backoff_waits (trace w)" "requests_sent (trace wb) = Suc (requests_sent (trace w))"
    by auto
  have "fetch_attempts url retries attempt w = (Inr (Some j), wb)"
    using a 1 2 by (subst fetch_attempts.simps) (auto simp: bind_def)
  with e2 show ?thesis by auto
qed







text \<open>
  Claim C5. The code at a failing input of the claim: after an HTTP error status other
  than 429 (here 500 and 404) neither \<open>get_batch_info\<close> nor \<open>get_info\<close> abandons the
  call; each sleeps \<open>2 ^ attempt\<close> seconds, sends the request again and returns the
  payload of the later, successful attempt.
\<close>

theorem non_429_error_is_retried:
  "fst (get_batch_info ''track'' [''t1''] 3
      (world0\<lparr>http := [HttpError 500 None, HttpError 500 None, Ok ''payload'']\<rparr>)) = Inr (Some ''payload'') \<and>
   requests_sent (trace (snd (get_batch_info ''track'' [''t1''] 3
      (world0\<lparr>http := [HttpError 500 None, HttpError 500 None, Ok ''payload'']\<rparr>)))) = 3 \<and>
   fst (get_info ''track'' ''t1'' 3
      (world0\<lparr>http := [HttpError 404 None, Ok ''payload'']\<rparr>)) = Inr (Some ''payload'') \<and>
   requests_sent (trace (snd (get_info ''track'' ''t1'' 3
      (world0\<lparr>http := [HttpError 404 None, Ok ''payload'']\<rparr>)))) = 2"
proof -
  have batch: "\<exists>w'. fetch_attempts url 3 0 (world0\<lparr>http := [HttpError 500 None, HttpError 500 None, Ok ''payload'']\<rparr>)
      = (Inr (Some ''payload''), w') \<and> requests_sent (trace w') = 3" for url
  proof -
    let ?w = "world0\<lparr>http := [HttpError 500 None, HttpError 500 None, Ok ''payload'']\<rparr> :: string world"
    from fetch_attempts_failure_step [of 0 3 ?w "HttpError 500 None" url] obtain w1 where
      1: "fetch_attempts url 3 0 ?w = fetch_attempts url 3 (Suc 0) w1"
        "http w1 = [HttpError 500 None, Ok ''payload'']" "requests_sent (trace w1) = 1"
      by (auto simp: world0_def)
    from fetch_attempts_failure_step [of "Suc 0" 3 w1 "HttpError 500 None" url] 1 obtain w2 where
      2: "fetch_attempts url 3 (Suc 0) w1 = fetch_attempts url 3 (Suc (Suc 0)) w2"
        "http w2 = [Ok ''payload'']" "requests_sent (trace w2) = 2"
      by auto
    from fetch_attempts_success [of "Suc (Suc 0)" 3 w2 "''payload''" "[]" url] 2 obtain w3 where
      "fetch_attempts url 3 (Suc (Suc 0)) w2 = (Inr (Some ''payload''), w3)" "requests_sent (trace w3) = 3"
      by auto
    with 1 2 show ?thesis by simp
  qed
  have info: "\<exists>w'. fetch_attempts url 3 0 (world0\<lparr>http := [HttpError 404 None, Ok ''payload'']\<rparr>)
      = (Inr (Some ''payload''), w') \<and> requests_sent (trace w') = 2" for url
  proof -
    let ?w = "world0\<lparr>http := [HttpError 404 None, Ok ''payload'']\<rparr> :: string world"
    from fetch_attempts_failure_step [of 0 3 ?w "HttpError 404 None" url] obtain w1 where
      1: "fetch_attempts url 3 0 ?w = fetch_attempts url 3 (Suc 0) w1"
        "http w1 = [Ok ''payload'']" "requests_sent (trace w1) = 1"
      by (auto simp: world0_def)
    from fetch_attempts_success [of "Suc 0" 3 w1 "''payload''" "[]" url] 1 obtain w2 where
      "fetch_attempts url 3 (Suc 0) w1 = (Inr (Some ''payload''), w2)" "requests_sent (trace w2) = 2"
      by auto
    with 1 show ?thesis by simp
  qed
  from batch [of "''https://api.spotify.com/v1/tracks?ids=t1''"] info [of "''https://api.spotify.com/v1/tracks/t1''"]
  show ?thesis
    by (auto simp: get_batch_info_def get_info_def valid_types_def max_sizes_def)
qed

subsection \<open>The persisters\<close>

lemma store_same [simp]:
  "db\<lparr>Track := Track db\<rparr> = db" "db\<lparr>Album := Album db\<rparr> = db" "db\<lparr>Artist := Artist db\<rparr> = db"
  "db\<lparr>Genre := Genre db\<rparr> = db" "db\<lparr>TrackArtist := TrackArtist db\<rparr> = db"
  "db\<lparr>AlbumArtist := AlbumArtist db\<rparr> = db" "db\<lparr>ArtistGenre := ArtistGenre db\<rparr> = db"
  by simp_all

lemma ids_insert_or_ignore: "ids (insert_or_ignore k r tbl) = insert k (ids tbl)"
  by (auto simp: insert_or_ignore_def ids_def)

lemma ids_insert_or_replace: "ids (insert_or_replace k r tbl) = insert k (ids tbl)"
  by (auto simp: insert_or_replace_def ids_def image_iff)

lemma insert_or_ignore_present: "k \<in> ids tbl \<Longrightarrow> insert_or_ignore k r tbl = tbl"
  by (simp add: insert_or_ignore_def)

lemma insert_or_ignore_same: "insert_or_ignore k r tbl = tbl \<longleftrightarrow> k \<in> ids tbl"
  by (simp add: insert_or_ignore_def)

lemma insert_or_replace_twice:
  "insert_or_replace k r (insert_or_replace k r tbl) = insert_or_replace k r tbl"
  by (simp add: insert_or_replace_def)

lemma insert_edge_same: "insert_edge e es = es \<longleftrightarrow> e \<in> set es"
  by (simp add: insert_edge_def)

lemma set_insert_edge: "set (insert_edge e es) = insert e (set es)"
  by (auto simp: insert_edge_def)

lemma insert_or_ignore_genre_same: "insert_or_ignore_genre n g = g \<longleftrightarrow> n \<in> snd ` set g"
  by (simp add: insert_or_ignore_genre_def)

lemma names_insert_or_ignore_genre: "snd ` set (insert_or_ignore_genre n g) = insert n (snd ` set g)"
  by (auto simp: insert_or_ignore_genre_def)

lemma find_append: "find P (xs @ ys) = (case find P xs of None \<Rightarrow> find P ys | Some x \<Rightarrow> Some x)"
  by (induction xs) auto

lemma select_genre_id_stable:
  "select_genre_id n g = Some i \<Longrightarrow> select_genre_id n (insert_or_ignore_genre m g) = Some i"
  by (auto simp: select_genre_id_def insert_or_ignore_genre_def find_append split: option.splits)

lemma select_genre_id_present: "n \<in> snd ` set g \<Longrightarrow> \<exists>i. select_genre_id n g = Some i"
proof -
  assume "n \<in> snd ` set g"
  then have "\<exists>x\<in>set g. (\<lambda>(i, m). m = n) x" by auto
  then have "find (\<lambda>(i, m). m = n) g \<noteq> None" by (auto simp: find_None_iff)
  then show ?thesis by (auto simp: select_genre_id_def)
qed

lemma select_genre_id_inserted: "\<exists>i. select_genre_id n (insert_or_ignore_genre n g) = Some i"
  by (rule select_genre_id_present) (simp add: names_insert_or_ignore_genre)

lemma update_same_iff:
  "db\<lparr>Track := x\<rparr> = db \<longleftrightarrow> x = Track db" "db\<lparr>Album := y\<rparr> = db \<longleftrightarrow> y = Album db"
  "db\<lparr>Artist := z\<rparr> = db \<longleftrightarrow> z = Artist db" "db\<lparr>Genre := g\<rparr> = db \<longleftrightarrow> g = Genre db"
  "db\<lparr>TrackArtist := ta\<rparr> = db \<longleftrightarrow> ta = TrackArtist db"
  "db\<lparr>AlbumArtist := aa\<rparr> = db \<longleftrightarrow> aa = AlbumArtist db"
  "db\<lparr>ArtistGenre := ag\<rparr> = db \<longleftrightarrow> ag = ArtistGenre db"
  by (cases db; auto)+

lemma settled_ignoring:
  "settled (InsertOrIgnoreTrackArtist t a) db \<longleftrightarrow> (t, a) \<in> set (TrackArtist db)"
  "settled (InsertOrIgnoreAlbumArtist al a) db \<longleftrightarrow> (al, a) \<in> set (AlbumArtist db)"
  "settled (InsertOrIgnoreArtist k) db \<longleftrightarrow> k \<in> ids (Artist db)"
  "settled (InsertOrIgnoreAlbum k) db \<longleftrightarrow> k \<in> ids (Album db)"
  "settled (InsertOrIgnoreTrack k) db \<longleftrightarrow> k \<in> ids (Track db)"
  "settled (InsertOrIgnoreGenre n) db \<longleftrightarrow> n \<in> snd ` set (Genre db)"
  "settled (InsertOrIgnoreArtistGenre a n) db \<longleftrightarrow>
     (\<exists>i. select_genre_id n (Genre db) = Some i \<and> (a, i) \<in> set (ArtistGenre db))"
  by (auto simp: settled_def update_same_iff insert_edge_same insert_or_ignore_same
      insert_or_ignore_genre_same split: option.splits)

lemma grows_refl: "grows db db"
  by (simp add: grows_def)

lemma grows_trans:
  assumes ab: "grows a b" and bc: "grows b c"
  shows "grows a c"
proof -
  have s0: "ids (Track a) \<subseteq> ids (Track c)"
  proof (rule order_trans)
    show "ids (Track a) \<subseteq> ids (Track b)" using ab by (simp add: grows_def)
    show "ids (Track b) \<subseteq> ids (Track c)" using bc by (simp add: grows_def)
  qed
  have s1: "ids (Album a) \<subseteq> ids (Album c)"
  proof (rule order_trans)
    show "ids (Album a) \<subseteq> ids (Album b)" using ab by (simp add: grows_def)
    show "ids (Album b) \<subseteq> ids (Album c)" using bc by (simp add: grows_def)
  qed
  have s2: "ids (Artist a) \<subseteq> ids (Artist c)"
  proof (rule order_trans)
    show "ids (Artist a) \<subseteq> ids (Artist b)" using ab by (simp add: grows_def)
    show "ids (Artist b) \<subseteq> ids (Artist c)" using bc by (simp add: grows_def)
  qed
  have s3: "ids (Genre a) \<subseteq> ids (Genre c)"
  proof (rule order_trans)
    show "ids (Genre a) \<subseteq> ids (Genre b)" using ab by (simp add: grows_def)
    show "ids (Genre b) \<subseteq> ids (Genre c)" using bc by (simp add: grows_def)
  qed
  have s4: "snd ` set (Genre a) \<subseteq> snd ` set (Genre c)"
  proof (rule order_trans)
    show "snd ` set (Genre a) \<subseteq> snd ` set (Genre b)" using ab by (simp add: grows_def)
    show "snd ` set (Genre b) \<subseteq> snd ` set (Genre c)" using bc by (simp add: grows_def)
  qed
  have s5: "set (TrackArtist a) \<subseteq> set (TrackArtist c)"
  proof (rule order_trans)
    show "set (TrackArtist a) \<subseteq> set (TrackArtist b)" using ab by (simp add: grows_def)
    show "set (TrackArtist b) \<subseteq> set (TrackArtist c)" using bc by (simp add: grows_def)
  qed
  have s6: "set (AlbumArtist a) \<subseteq> set (AlbumArtist c)"
  proof (rule order_trans)
    show "set (AlbumArtist a) \<subseteq> set (AlbumArtist b)" using ab by (simp add: grows_def)
    show "set (AlbumArtist b) \<subseteq> set (AlbumArtist c)" using bc by (simp add: grows_def)
  qed
  have s7: "set (ArtistGenre a) \<subseteq> set (ArtistGenre c)"
  proof (rule order_trans)
    show "set (ArtistGenre a) \<subseteq> set (ArtistGenre b)" using ab by (simp add: grows_def)
    show "set (ArtistGenre b) \<subseteq> set (ArtistGenre c)" using bc by (simp add: grows_def)
  qed
  have sel: "select_genre_id n (Genre c) = Some i" if h: "select_genre_id n (Genre a) = Some i" for n i
  proof -
    from ab have "\<forall>n i. select_genre_id n (Genre a) = Some i \<longrightarrow> select_genre_id n (Genre b) = Some i"
      by (simp add: grows_def)
    with h have "select_genre_id n (Genre b) = Some i" by blast
    moreover from bc have "\<forall>n i. select_genre_id n (Genre b) = Some i \<longrightarrow> select_genre_id n (Genre c) = Some i"
      by (simp add: grows_def)
    ultimately show ?thesis by blast
  qed
  have d: "retrieved_albums_default c = retrieved_albums_default a"
    using ab bc by (simp add: grows_def)
  show ?thesis unfolding grows_def using s0 s1 s2 s3 s4 s5 s6 s7 sel d by (intro conjI allI impI)
qed

lemma ids_insert_or_ignore_genre: "ids g \<subseteq> ids (insert_or_ignore_genre n g)"
  by (auto simp: insert_or_ignore_genre_def ids_def)

lemma genre_grows:
  "ids g \<subseteq> ids (insert_or_ignore_genre n g) \<and> snd ` set g \<subseteq> snd ` set (insert_or_ignore_genre n g)"
  by (auto simp: insert_or_ignore_genre_def ids_def)

lemma execute_grows:
  assumes "execute s db = (r, db')"
  shows "grows db db'"
proof (cases s)
  case (InsertOrIgnoreGenre n)
  with assms have db': "db' = db\<lparr>Genre := insert_or_ignore_genre n (Genre db)\<rparr>" by simp
  show ?thesis
    unfolding grows_def db' using genre_grows [of "Genre db" n] select_genre_id_stable
    by simp
next
  case (InsertOrIgnoreArtistGenre a n)
  with assms show ?thesis
    by (cases "select_genre_id n (Genre db)") (auto simp: grows_def set_insert_edge)
qed (use assms in \<open>auto simp: grows_def ids_insert_or_ignore ids_insert_or_replace set_insert_edge\<close>)

lemma run_grows: "run ss db = (r, db') \<Longrightarrow> grows db db'"
proof (induction ss arbitrary: db)
  case Nil
  then show ?case by (simp add: grows_refl)
next
  case (Cons s ss)
  obtain r1 d where e: "execute s db = (r1, d)" by (cases "execute s db")
  show ?case
  proof (cases r1)
    case (Inl err)
    with e Cons.prems have "db' = d" by (simp add: bind_def)
    with e show ?thesis by (simp add: execute_grows)
  next
    case (Inr u)
    with e Cons.prems have "run ss d = (r, db')" by (simp add: bind_def)
    from Cons.IH [OF this] execute_grows [OF e] show ?thesis by (rule grows_trans [rotated])
  qed
qed

lemma settled_grows: "ignoring s \<Longrightarrow> settled s db \<Longrightarrow> grows db db' \<Longrightarrow> settled s db'"
  by (cases s) (auto simp: settled_ignoring grows_def)

lemma settled_after: "ignoring s \<Longrightarrow> execute s db = (Inr (), db') \<Longrightarrow> settled s db'"
  by (cases s)
    (auto simp: settled_ignoring ids_insert_or_ignore set_insert_edge names_insert_or_ignore_genre
      split: option.splits)

lemma run_all_settled: "\<forall>s\<in>set ss. settled s db \<Longrightarrow> run ss db = (Inr (), db)"
  by (induction ss) (simp_all add: settled_def bind_def)

lemma run_settles:
  "\<forall>s\<in>set ss. ignoring s \<Longrightarrow> run ss db = (Inr (), db1) \<Longrightarrow> \<forall>s\<in>set ss. settled s db1"
proof (induction ss arbitrary: db)
  case Nil
  then show ?case by simp
next
  case (Cons s ss)
  obtain r1 d where e: "execute s db = (r1, d)" by (cases "execute s db")
  with Cons.prems(2) have r1: "r1 = Inr ()" and rest: "run ss d = (Inr (), db1)"
    by (cases r1; simp add: bind_def)+
  from Cons.prems(1) have "ignoring s" by simp
  then have "settled s d" using e r1 by (simp add: settled_after)
  then have "settled s db1" using \<open>ignoring s\<close> run_grows [OF rest] by (auto intro: settled_grows)
  moreover from Cons.IH [OF _ rest] Cons.prems(1) have "\<forall>s\<in>set ss. settled s db1" by simp
  ultimately show ?case by simp
qed

lemma run_ignoring_idem:
  "\<forall>s\<in>set ss. ignoring s \<Longrightarrow> run ss db = (Inr (), db1) \<Longrightarrow> run ss db1 = (Inr (), db1)"
  by (rule run_all_settled) (rule run_settles)

lemma execute_frame:
  "execute s db = (r, db') \<Longrightarrow>
     (writes s \<noteq> ''Track'' \<longrightarrow> Track db' = Track db) \<and>
     (writes s \<noteq> ''Album'' \<longrightarrow> Album db' = Album db) \<and>
     (writes s \<noteq> ''Artist'' \<longrightarrow> Artist db' = Artist db)"
  by (cases s) (auto split: option.splits)

lemma run_frame:
  "run ss db = (r, db') \<Longrightarrow>
     ((\<forall>s\<in>set ss. writes s \<noteq> ''Track'') \<longrightarrow> Track db' = Track db) \<and>
     ((\<forall>s\<in>set ss. writes s \<noteq> ''Album'') \<longrightarrow> Album db' = Album db) \<and>
     ((\<forall>s\<in>set ss. writes s \<noteq> ''Artist'') \<longrightarrow> Artist db' = Artist db)"
proof (induction ss arbitrary: db)
  case Nil
  then show ?case by simp
next
  case (Cons s ss)
  obtain r1 d where e: "execute s db = (r1, d)" by (cases "execute s db")
  show ?case
  proof (cases r1)
    case (Inl err)
    with e Cons.prems have "db' = d" by (simp add: bind_def)
    with execute_frame [OF e] show ?thesis by simp
  next
    case (Inr u)
    with e Cons.prems have "run ss d = (r, db')" by (simp add: bind_def)
    from Cons.IH [OF this] execute_frame [OF e] show ?thesis by simp
  qed
qed

lemma replace_first_idem:
  assumes R: "\<not> ignoring R" and rest: "\<forall>s\<in>set rest. ignoring s \<and> writes s \<noteq> writes R"
    and run: "run (R # rest) db = (Inr (), db1)"
  shows "run (R # rest) db1 = (Inr (), db1)"
proof -
  obtain d where e: "execute R db = (Inr (), d)" and r: "run rest d = (Inr (), db1)"
    using run by (cases "execute R db"; cases "fst (execute R db)") (simp_all add: bind_def)
  have g: "grows d db1" using r by (rule run_grows)
  have "execute R db1 = (Inr (), db1)"
  proof (cases R)
    case (InsertOrReplaceTrack k row)
    with rest run_frame [OF r] have "Track db1 = Track d" by simp
    moreover from e InsertOrReplaceTrack have "Track d = insert_or_replace k row (Track db)" by auto
    ultimately show ?thesis using InsertOrReplaceTrack by (simp add: insert_or_replace_twice update_same_iff)
  next
    case (InsertOrReplaceAlbum k row)
    with rest run_frame [OF r] have "Album db1 = Album d" by simp
    moreover from e InsertOrReplaceAlbum have "Album d = insert_or_replace k row (Album db)" by auto
    ultimately show ?thesis using InsertOrReplaceAlbum by (simp add: insert_or_replace_twice update_same_iff)
  next
    case (InsertOrReplaceArtist k n p f)
    with rest run_frame [OF r] have "Artist db1 = Artist d" by simp
    moreover from e InsertOrReplaceArtist have "Artist d = insert_or_replace k
        ((placeholder_artist db)\<lparr>ar_name := Some n, ar_popularity := Some p, ar_followers := Some f\<rparr>) (Artist db)"
      by auto
    moreover have "placeholder_artist db1 = placeholder_artist db"
      using g execute_grows [OF e] by (simp add: placeholder_artist_def grows_def)
    ultimately show ?thesis using InsertOrReplaceArtist by (simp add: insert_or_replace_twice update_same_iff)
  qed (use R in simp_all)
  moreover have "run rest db1 = (Inr (), db1)" using rest r by (intro run_ignoring_idem) auto
  ultimately show ?thesis by (simp add: bind_def)
qed

lemma bind_unit: "bind m (\<lambda>_ s. (Inr (), s)) = (m :: ('s, unit) prog)"
  by (rule ext) (simp add: bind_def split: prod.splits sum.splits)

lemma dump_single:
  "dump_tracks [track] db = run (track_stmts track) db"
  "dump_artists [artist] db = run (artist_stmts artist) db"
  "dump_albums [album] db =
     (case normalize_release_date (alb_release_date album) of
        Inl e \<Rightarrow> (Inl e, db)
      | Inr release_date \<Rightarrow> run (album_stmts album release_date) db)"
  by (simp_all add: bind_def split: prod.splits sum.splits)

lemma run_append:
  "run (ss @ ts) db = (case run ss db of (Inl e, d) \<Rightarrow> (Inl e, d) | (Inr u, d) \<Rightarrow> run ts d)"
  by (induction ss arbitrary: db) (simp_all add: bind_def split: prod.splits sum.splits)

lemma run_succeeds:
  "\<forall>s\<in>set ss. \<forall>a n. s \<noteq> InsertOrIgnoreArtistGenre a n \<Longrightarrow> \<exists>db1. run ss db = (Inr (), db1)"
proof (induction ss arbitrary: db)
  case Nil
  then show ?case by simp
next
  case (Cons s ss)
  then obtain d where "execute s db = (Inr (), d)" by (cases s) auto
  with Cons show ?case by (simp add: bind_def)
qed

lemma run_genres_succeeds:
  "\<exists>db1. run (concat (map (\<lambda>genre. [InsertOrIgnoreGenre genre, InsertOrIgnoreArtistGenre a genre]) gs)) db
     = (Inr (), db1)"
proof (induction gs arbitrary: db)
  case Nil
  then show ?case by simp
next
  case (Cons g gs)
  from select_genre_id_inserted [of g "Genre db"] obtain i where
    "select_genre_id g (insert_or_ignore_genre g (Genre db)) = Some i" by blast
  with Cons show ?case by (simp add: bind_def)
qed

lemma track_stmts_ok:
  "\<exists>db1. run (track_stmts track) db = (Inr (), db1) \<and> run (track_stmts track) db1 = (Inr (), db1)"
proof -
  define R where "R = hd (track_stmts track)"
  define rest where "rest = tl (track_stmts track)"
  have s: "track_stmts track = R # rest" by (simp add: R_def rest_def track_stmts_def)
  have R: "\<not> ignoring R" by (simp add: R_def track_stmts_def)
  have rest: "\<forall>s\<in>set rest. ignoring s \<and> writes s \<noteq> writes R"
    by (auto simp: R_def rest_def track_stmts_def)
  have "\<forall>s\<in>set (R # rest). \<forall>a n. s \<noteq> InsertOrIgnoreArtistGenre a n"
    by (auto simp: R_def rest_def track_stmts_def)
  from run_succeeds [OF this] obtain db1 where 1: "run (R # rest) db = (Inr (), db1)" by blast
  from replace_first_idem [OF R rest 1] 1 show ?thesis by (simp add: s)
qed

lemma album_stmts_ok:
  "\<exists>db1. run (album_stmts album d) db = (Inr (), db1) \<and> run (album_stmts album d) db1 = (Inr (), db1)"
proof -
  define R where "R = hd (album_stmts album d)"
  define rest where "rest = tl (album_stmts album d)"
  have s: "album_stmts album d = R # rest" by (simp add: R_def rest_def album_stmts_def)
  have R: "\<not> ignoring R" by (simp add: R_def album_stmts_def)
  have rest: "\<forall>s\<in>set rest. ignoring s \<and> writes s \<noteq> writes R"
    by (auto simp: R_def rest_def album_stmts_def)
  have "\<forall>s\<in>set (R # rest). \<forall>a n. s \<noteq> InsertOrIgnoreArtistGenre a n"
    by (auto simp: R_def rest_def album_stmts_def)
  from run_succeeds [OF this] obtain db1 where 1: "run (R # rest) db = (Inr (), db1)" by blast
  from replace_first_idem [OF R rest 1] 1 show ?thesis by (simp add: s)
qed

lemma artist_stmts_ok:
  "\<exists>db1. run (artist_stmts artist) db = (Inr (), db1) \<and> run (artist_stmts artist) db1 = (Inr (), db1)"
proof -
  define R where "R = hd (artist_stmts artist)"
  define rest where "rest = tl (artist_stmts artist)"
  have s: "artist_stmts artist = R # rest" by (simp add: R_def rest_def artist_stmts_def)
  have R: "\<not> ignoring R" by (simp add: R_def artist_stmts_def)
  have rest: "\<forall>s\<in>set rest. ignoring s \<and> writes s \<noteq> writes R"
    by (auto simp: R_def rest_def artist_stmts_def)
  have r: "rest = concat (map (\<lambda>genre. [InsertOrIgnoreGenre genre, InsertOrIgnoreArtistGenre (art_id artist) genre])
        (art_genres artist))"
    by (simp add: rest_def artist_stmts_def)
  obtain d where e: "execute R db = (Inr (), d)" by (simp add: R_def artist_stmts_def)
  from run_genres_succeeds [of "art_id artist" "art_genres artist" d] obtain db1 where
    "run rest d = (Inr (), db1)" unfolding r by blast
  with e have 1: "run (R # rest) db = (Inr (), db1)" by (simp add: bind_def)
  from replace_first_idem [OF R rest 1] 1 show ?thesis by (simp add: s)
qed

text \<open>
  Claim C3. Persisting is idempotent: for every record and every store, \<open>dump_tracks\<close>,
  \<open>dump_albums\<close> and \<open>dump_artists\<close> run a second time on the same record return as the
  first time and leave the store the first run left, table for table (entity rows and
  junction rows alike). \<open>dump_tracks\<close> and \<open>dump_artists\<close> never raise; \<open>dump_albums\<close>
  raises exactly when the release date cannot be normalized, before it writes anything.
\<close>

theorem persist_idempotent:
  "fst (dump_tracks [track] db) = Inr () \<and>
   dump_tracks [track] (snd (dump_tracks [track] db)) = dump_tracks [track] db \<and>
   fst (dump_albums [album] db) =
     (case normalize_release_date (alb_release_date album) of Inl e \<Rightarrow> Inl e | Inr d \<Rightarrow> Inr ()) \<and>
   dump_albums [album] (snd (dump_albums [album] db)) = dump_albums [album] db \<and>
   fst (dump_artists [artist] db) = Inr () \<and>
   dump_artists [artist] (snd (dump_artists [artist] db)) = dump_artists [artist] db"
proof -
  from track_stmts_ok [of track db] have
    "fst (dump_tracks [track] db) = Inr () \<and>
     dump_tracks [track] (snd (dump_tracks [track] db)) = dump_tracks [track] db"
    unfolding dump_single by auto
  moreover from artist_stmts_ok [of artist db] have
    "fst (dump_artists [artist] db) = Inr () \<and>
     dump_artists [artist] (snd (dump_artists [artist] db)) = dump_artists [artist] db"
    unfolding dump_single by auto
  moreover have "fst (dump_albums [album] db) =
     (case normalize_release_date (alb_release_date album) of Inl e \<Rightarrow> Inl e | Inr d \<Rightarrow> Inr ()) \<and>
     dump_albums [album] (snd (dump_albums [album] db)) = dump_albums [album] db"
  proof (cases "normalize_release_date (alb_release_date album)")
    case (Inl e)
    then show ?thesis unfolding dump_single by simp
  next
    case (Inr d)
    with album_stmts_ok [of album d db] show ?thesis unfolding dump_single by auto
  qed
  ultimately show ?thesis by simp
qed

theorem persist_idempotent_witness:
  "dump_tracks [track1] (snd (dump_tracks [track1] empty_store)) = dump_tracks [track1] empty_store \<and>
   dump_albums [album1] (snd (dump_albums [album1] empty_store)) = dump_albums [album1] empty_store \<and>
   dump_artists [artist1] (snd (dump_artists [artist1] empty_store)) = dump_artists [artist1] empty_store \<and>
   TrackArtist (snd (dump_tracks [track1] empty_store)) = [(''t1'', ''a1'')] \<and>
   AlbumArtist (snd (dump_albums [album1] empty_store)) = [(''al1'', ''a1'')] \<and>
   ArtistGenre (snd (dump_artists [artist1] empty_store)) = [(''a1'', 1), (''a1'', 2)]"
proof -
  have "TrackArtist (snd (dump_tracks [track1] empty_store)) = [(''t1'', ''a1'')]"
    by (simp add: track1_def empty_store_def track_stmts_def bind_def insert_edge_def)
  moreover have "AlbumArtist (snd (dump_albums [album1] empty_store)) = [(''al1'', ''a1'')]"
    by (simp add: album1_def empty_store_def album_stmts_def bind_def insert_edge_def
        normalize_release_date_def)
  moreover have "ArtistGenre (snd (dump_artists [artist1] empty_store)) = [(''a1'', 1), (''a1'', 2)]"
    by (simp add: artist1_def empty_store_def artist_stmts_def bind_def insert_edge_def
        insert_or_ignore_genre_def select_genre_id_def new_id_def)
  ultimately show ?thesis
    using persist_idempotent [of track1 empty_store album1 artist1] by blast
qed

lemma dangling_count_0: "dangling_count db = 0 \<longleftrightarrow> no_dangling db"
  by (auto simp: dangling_count_def dangling_def no_dangling_def filter_empty_conv)

lemma after_prefix_0 [simp]: "after_prefix 0 ss db = db"
  by (simp add: after_prefix_def)

lemma after_prefix_Nil [simp]: "after_prefix n [] db = db"
  by (simp add: after_prefix_def)

lemma after_prefix_Suc:
  "execute s db = (Inr (), d) \<Longrightarrow> after_prefix (Suc n) (s # ss) db = after_prefix n ss d"
  by (simp add: after_prefix_def bind_def)

lemma after_prefix_all: "length ss \<le> n \<Longrightarrow> after_prefix n ss db = snd (run ss db)"
  by (simp add: after_prefix_def)

text \<open>A statement that inserts into an entity table leaves no more dangling rows.\<close>

lemma entity_insert_dangling:
  assumes "TrackArtist d = TrackArtist db" "AlbumArtist d = AlbumArtist db" "ArtistGenre d = ArtistGenre db"
    and "ids (Track db) \<subseteq> ids (Track d)" "ids (Album db) \<subseteq> ids (Album d)"
    and "ids (Artist db) \<subseteq> ids (Artist d)" "ids (Genre db) \<subseteq> ids (Genre d)"
  shows "dangling_count d \<le> dangling_count db"
proof -
  have "length (filter (\<lambda>(t, a). t \<notin> ids (Track d) \<or> a \<notin> ids (Artist d)) (TrackArtist db))
      \<le> length (filter (\<lambda>(t, a). t \<notin> ids (Track db) \<or> a \<notin> ids (Artist db)) (TrackArtist db))"
    using assms(4,6) by (intro filter_length_mono) auto
  moreover have "length (filter (\<lambda>(al, a). al \<notin> ids (Album d) \<or> a \<notin> ids (Artist d)) (AlbumArtist db))
      \<le> length (filter (\<lambda>(al, a). al \<notin> ids (Album db) \<or> a \<notin> ids (Artist db)) (AlbumArtist db))"
    using assms(5,6) by (intro filter_length_mono) auto
  moreover have "length (filter (\<lambda>(a, g). a \<notin> ids (Artist d) \<or> g \<notin> ids (Genre d)) (ArtistGenre db))
      \<le> length (filter (\<lambda>(a, g). a \<notin> ids (Artist db) \<or> g \<notin> ids (Genre db)) (ArtistGenre db))"
    using assms(6,7) by (intro filter_length_mono) auto
  ultimately show ?thesis by (simp add: dangling_count_def dangling_def assms(1-3))
qed

lemma length_filter_insert_edge: "length (filter P (insert_edge e es)) \<le> Suc (length (filter P es))"
  by (simp add: insert_edge_def)

lemma track_edge_dangling:
  "dangling_count (db\<lparr>TrackArtist := insert_edge e (TrackArtist db)\<rparr>) \<le> Suc (dangling_count db)"
  using length_filter_insert_edge [of "\<lambda>(t, a). t \<notin> ids (Track db) \<or> a \<notin> ids (Artist db)" e "TrackArtist db"]
  by (simp add: dangling_count_def dangling_def)

lemma album_edge_dangling:
  "dangling_count (db\<lparr>AlbumArtist := insert_edge e (AlbumArtist db)\<rparr>) \<le> Suc (dangling_count db)"
  using length_filter_insert_edge [of "\<lambda>(al, a). al \<notin> ids (Album db) \<or> a \<notin> ids (Artist db)" e "AlbumArtist db"]
  by (simp add: dangling_count_def dangling_def)

lemma entity_statement_dangling:
  assumes "writes s \<in> {''Track'', ''Album'', ''Artist'', ''Genre''}" and "execute s db = (r, d)"
  shows "dangling_count d \<le> dangling_count db"
proof (rule entity_insert_dangling)
  from execute_grows [OF assms(2)] show "ids (Track db) \<subseteq> ids (Track d)" "ids (Album db) \<subseteq> ids (Album d)"
    "ids (Artist db) \<subseteq> ids (Artist d)" "ids (Genre db) \<subseteq> ids (Genre d)"
    by (simp_all add: grows_def)
  from assms show "TrackArtist d = TrackArtist db" "AlbumArtist d = AlbumArtist db" "ArtistGenre d = ArtistGenre db"
    by (cases s; auto)+
qed

lemma run_Cons_ok: "execute s db = (Inr (), d) \<Longrightarrow> run (s # ss) db = run ss d"
  by (simp add: bind_def)

lemma no_dangling_le: "no_dangling db \<Longrightarrow> dangling_count db \<le> Suc 0"
  by (simp flip: dangling_count_0)

lemma track_pairs_dangling:
  assumes "no_dangling db" and "t \<in> ids (Track db)"
  defines "pairs \<equiv> \<lambda>as. concat (map (\<lambda>artist_id.
      [InsertOrIgnoreTrackArtist t artist_id, InsertOrIgnoreArtist artist_id]) as)"
  shows "(\<forall>n. dangling_count (after_prefix n (pairs as) db) \<le> 1) \<and>
    fst (run (pairs as) db) = Inr () \<and> no_dangling (snd (run (pairs as) db))"
  using assms(1,2)
proof (induction as arbitrary: db)
  case Nil
  then show ?case by (simp add: pairs_def no_dangling_le)
next
  case (Cons a as)
  define d1 where "d1 = db\<lparr>TrackArtist := insert_edge (t, a) (TrackArtist db)\<rparr>"
  define d2 where "d2 = d1\<lparr>Artist := insert_or_ignore a (placeholder_artist d1) (Artist d1)\<rparr>"
  have e1: "execute (InsertOrIgnoreTrackArtist t a) db = (Inr (), d1)" by (simp add: d1_def)
  have e2: "execute (InsertOrIgnoreArtist a) d1 = (Inr (), d2)" by (simp add: d2_def)
  have p: "pairs (a # as) = InsertOrIgnoreTrackArtist t a # InsertOrIgnoreArtist a # pairs as"
    by (simp add: pairs_def)
  have c1: "dangling_count d1 \<le> 1"
    using track_edge_dangling [where db = db and e = "(t, a)"] Cons.prems(1) by (simp add: d1_def flip: dangling_count_0)
  have n2: "no_dangling d2" and t2: "t \<in> ids (Track d2)"
    using Cons.prems by (auto simp: no_dangling_def d2_def d1_def set_insert_edge ids_insert_or_ignore)
  from Cons.IH [OF n2 t2] have ih: "\<forall>n. dangling_count (after_prefix n (pairs as) d2) \<le> 1"
    "fst (run (pairs as) d2) = Inr ()" "no_dangling (snd (run (pairs as) d2))" by simp_all
  have r: "run (pairs (a # as)) db = run (pairs as) d2"
    by (simp only: p run_Cons_ok [OF e1] run_Cons_ok [OF e2])
  have "dangling_count (after_prefix n (pairs (a # as)) db) \<le> 1" for n
  proof (cases n)
    case 0
    with Cons.prems(1) show ?thesis by (simp add: no_dangling_le)
  next
    case (Suc m)
    show ?thesis
    proof (cases m)
      case 0
      with Suc c1 show ?thesis by (simp add: p after_prefix_Suc [OF e1])
    next
      case (Suc k)
      with \<open>n = Suc m\<close> ih(1) show ?thesis
        by (simp add: p after_prefix_Suc [OF e1] after_prefix_Suc [OF e2])
    qed
  qed
  with ih r show ?case by simp
qed

lemma album_pairs_dangling:
  assumes "no_dangling db" and "al \<in> ids (Album db)"
  defines "pairs \<equiv> \<lambda>as. concat (map (\<lambda>artist_id.
      [InsertOrIgnoreAlbumArtist al artist_id, InsertOrIgnoreArtist artist_id]) as)"
  shows "(\<forall>n. dangling_count (after_prefix n (pairs as) db) \<le> 1) \<and>
    fst (run (pairs as) db) = Inr () \<and> no_dangling (snd (run (pairs as) db))"
  using assms(1,2)
proof (induction as arbitrary: db)
  case Nil
  then show ?case by (simp add: pairs_def no_dangling_le)
next
  case (Cons a as)
  define d1 where "d1 = db\<lparr>AlbumArtist := insert_edge (al, a) (AlbumArtist db)\<rparr>"
  define d2 where "d2 = d1\<lparr>Artist := insert_or_ignore a (placeholder_artist d1) (Artist d1)\<rparr>"
  have e1: "execute (InsertOrIgnoreAlbumArtist al a) db = (Inr (), d1)" by (simp add: d1_def)
  have e2: "execute (InsertOrIgnoreArtist a) d1 = (Inr (), d2)" by (simp add: d2_def)
  have p: "pairs (a # as) = InsertOrIgnoreAlbumArtist al a # InsertOrIgnoreArtist a # pairs as"
    by (simp add: pairs_def)
  have c1: "dangling_count d1 \<le> 1"
    using album_edge_dangling [where db = db and e = "(al, a)"] Cons.prems(1) by (simp add: d1_def flip: dangling_count_0)
  have n2: "no_dangling d2" and t2: "al \<in> ids (Album d2)"
    using Cons.prems by (auto simp: no_dangling_def d2_def d1_def set_insert_edge ids_insert_or_ignore)
  from Cons.IH [OF n2 t2] have ih: "\<forall>n. dangling_count (after_prefix n (pairs as) d2) \<le> 1"
    "fst (run (pairs as) d2) = Inr ()" "no_dangling (snd (run (pairs as) d2))" by simp_all
  have r: "run (pairs (a # as)) db = run (pairs as) d2"
    by (simp only: p run_Cons_ok [OF e1] run_Cons_ok [OF e2])
  have "dangling_count (after_prefix n (pairs (a # as)) db) \<le> 1" for n
  proof (cases n)
    case 0
    with Cons.prems(1) show ?thesis by (simp add: no_dangling_le)
  next
    case (Suc m)
    show ?thesis
    proof (cases m)
      case 0
      with Suc c1 show ?thesis by (simp add: p after_prefix_Suc [OF e1])
    next
      case (Suc k)
      with \<open>n = Suc m\<close> ih(1) show ?thesis
        by (simp add: p after_prefix_Suc [OF e1] after_prefix_Suc [OF e2])
    qed
  qed
  with ih r show ?case by simp
qed

lemma select_genre_id_in_ids: "select_genre_id n g = Some i \<Longrightarrow> i \<in> ids g"
proof -
  assume "select_genre_id n g = Some i"
  then obtain x where "find (\<lambda>(i, m). m = n) g = Some x" and "fst x = i"
    by (auto simp: select_genre_id_def)
  then have "x \<in> set g" by (auto simp: find_Some_iff in_set_conv_nth)
  with \<open>fst x = i\<close> show ?thesis by (auto simp: ids_def)
qed

lemma genre_pairs_dangling:
  assumes "no_dangling db" and "a \<in> ids (Artist db)"
  defines "pairs \<equiv> \<lambda>gs. concat (map (\<lambda>genre.
      [InsertOrIgnoreGenre genre, InsertOrIgnoreArtistGenre a genre]) gs)"
  shows "(\<forall>n. no_dangling (after_prefix n (pairs gs) db)) \<and> fst (run (pairs gs) db) = Inr ()"
  using assms(1,2)
proof (induction gs arbitrary: db)
  case Nil
  then show ?case by (simp add: pairs_def)
next
  case (Cons g gs)
  define d1 where "d1 = db\<lparr>Genre := insert_or_ignore_genre g (Genre db)\<rparr>"
  from select_genre_id_inserted [of g "Genre db"] obtain i where
    i: "select_genre_id g (Genre d1) = Some i" by (auto simp: d1_def)
  define d2 where "d2 = d1\<lparr>ArtistGenre := insert_edge (a, i) (ArtistGenre d1)\<rparr>"
  have e1: "execute (InsertOrIgnoreGenre g) db = (Inr (), d1)" by (simp add: d1_def)
  have e2: "execute (InsertOrIgnoreArtistGenre a g) d1 = (Inr (), d2)" using i by (simp add: d2_def)
  have p: "pairs (g # gs) = InsertOrIgnoreGenre g # InsertOrIgnoreArtistGenre a g # pairs gs"
    by (simp add: pairs_def)
  have "dangling_count d1 \<le> dangling_count db"
    using e1 by (rule entity_statement_dangling [rotated]) simp
  with Cons.prems(1) have n1: "no_dangling d1" by (simp flip: dangling_count_0)
  have a1: "a \<in> ids (Artist d1)" using Cons.prems(2) by (simp add: d1_def)
  have n2: "no_dangling d2" and a2: "a \<in> ids (Artist d2)"
    using n1 a1 select_genre_id_in_ids [OF i]
    by (auto simp: no_dangling_def d2_def set_insert_edge)
  from Cons.IH [OF n2 a2] have ih: "\<forall>n. no_dangling (after_prefix n (pairs gs) d2)"
    "fst (run (pairs gs) d2) = Inr ()" by simp_all
  have r: "run (pairs (g # gs)) db = run (pairs gs) d2"
    by (simp only: p run_Cons_ok [OF e1] run_Cons_ok [OF e2])
  have "no_dangling (after_prefix n (pairs (g # gs)) db)" for n
  proof (cases n)
    case 0
    with Cons.prems(1) show ?thesis by simp
  next
    case (Suc m)
    show ?thesis
    proof (cases m)
      case 0
      with Suc n1 show ?thesis by (simp add: p after_prefix_Suc [OF e1])
    next
      case (Suc k)
      with \<open>n = Suc m\<close> ih(1) show ?thesis
        by (simp add: p after_prefix_Suc [OF e1] after_prefix_Suc [OF e2])
    qed
  qed
  with ih r show ?case by simp
qed

lemma after_prefix_append:
  "after_prefix n (xs @ ys) db =
     (if n \<le> length xs then after_prefix n xs db
      else (case run xs db of (Inl e, d) \<Rightarrow> d | (Inr u, d) \<Rightarrow> after_prefix (n - length xs) ys d))"
  by (simp add: after_prefix_def run_append split: prod.splits sum.splits)

lemma entity_prefix_dangling:
  "\<forall>s\<in>set ss. writes s \<in> {''Track'', ''Album'', ''Artist'', ''Genre''} \<Longrightarrow>
     dangling_count (after_prefix n ss db) \<le> dangling_count db"
proof (induction ss arbitrary: n db)
  case Nil
  then show ?case by simp
next
  case (Cons s ss)
  show ?case
  proof (cases n)
    case 0
    then show ?thesis by simp
  next
    case (Suc m)
    obtain r d where e: "execute s db = (r, d)" by (cases "execute s db")
    from Cons.prems have w: "writes s \<in> {''Track'', ''Album'', ''Artist'', ''Genre''}" by simp
    then have "r = Inr ()" using e by (cases s) auto
    with e have "after_prefix n (s # ss) db = after_prefix m ss d" by (simp add: Suc after_prefix_Suc)
    moreover have "dangling_count (after_prefix m ss d) \<le> dangling_count d"
      using Cons.prems by (intro Cons.IH) simp
    moreover have "dangling_count d \<le> dangling_count db" using w e by (rule entity_statement_dangling)
    ultimately show ?thesis by simp
  qed
qed

lemma track_stmts_dangling:
  assumes "dangling_count db = 0"
  shows "dangling_count (after_prefix n (track_stmts track) db) \<le> 1"
    and "dangling_count (snd (run (track_stmts track) db)) = 0"
proof -
  define R where "R = hd (track_stmts track)"
  define pairs where "pairs = concat (map (\<lambda>artist_id.
      [InsertOrIgnoreTrackArtist (trk_id track) artist_id, InsertOrIgnoreArtist artist_id]) (trk_artists track))"
  define A where "A = [InsertOrIgnoreAlbum (trk_album track)]"
  have s: "track_stmts track = R # (pairs @ A)" by (simp add: R_def pairs_def A_def track_stmts_def)
  obtain dR where e: "execute R db = (Inr (), dR)" by (simp add: R_def track_stmts_def)
  have "dangling_count dR \<le> dangling_count db"
    using e by (rule entity_statement_dangling [rotated]) (simp add: R_def track_stmts_def)
  with assms have nR: "no_dangling dR" by (simp flip: dangling_count_0)
  have tR: "trk_id track \<in> ids (Track dR)"
    using e by (auto simp: R_def track_stmts_def ids_insert_or_replace)
  from track_pairs_dangling [OF nR tR, of "trk_artists track"]
  have p: "\<And>m. dangling_count (after_prefix m pairs dR) \<le> 1" "fst (run pairs dR) = Inr ()"
    "no_dangling (snd (run pairs dR))" by (simp_all add: pairs_def)
  obtain dP where rp: "run pairs dR = (Inr (), dP)" and nP: "no_dangling dP"
    using p(2,3) by (cases "run pairs dR") auto
  have rest: "dangling_count (after_prefix m (pairs @ A) dR) \<le> 1" for m
  proof (cases "m \<le> length pairs")
    case True
    with p(1) show ?thesis by (simp add: after_prefix_append)
  next
    case False
    have "dangling_count (after_prefix (m - length pairs) A dP) \<le> dangling_count dP"
      by (rule entity_prefix_dangling) (simp add: A_def)
    with False nP rp show ?thesis by (simp add: after_prefix_append flip: dangling_count_0)
  qed
  show "dangling_count (after_prefix n (track_stmts track) db) \<le> 1"
  proof (cases n)
    case 0
    with assms show ?thesis by simp
  next
    case (Suc m)
    with rest [of m] show ?thesis by (simp add: s after_prefix_Suc [OF e])
  qed
  have "dangling_count (snd (run A dP)) \<le> dangling_count dP"
    using entity_prefix_dangling [of A "length A" dP] by (simp add: A_def after_prefix_all)
  with nP have "dangling_count (snd (run A dP)) = 0" by (simp flip: dangling_count_0)
  then show "dangling_count (snd (run (track_stmts track) db)) = 0"
    by (simp only: s run_Cons_ok [OF e] run_append rp prod.case sum.case)
qed

lemma album_stmts_dangling:
  assumes "dangling_count db = 0"
  shows "dangling_count (after_prefix n (album_stmts album d) db) \<le> 1"
    and "dangling_count (snd (run (album_stmts album d) db)) = 0"
proof -
  define R where "R = hd (album_stmts album d)"
  define pairs where "pairs = concat (map (\<lambda>artist_id.
      [InsertOrIgnoreAlbumArtist (alb_id album) artist_id, InsertOrIgnoreArtist artist_id]) (alb_artists album))"
  define A where "A = map InsertOrIgnoreTrack (alb_tracks album)"
  have s: "album_stmts album d = R # (pairs @ A)" by (simp add: R_def pairs_def A_def album_stmts_def)
  have A: "\<forall>s\<in>set A. writes s \<in> {''Track'', ''Album'', ''Artist'', ''Genre''}" by (auto simp: A_def)
  obtain dR where e: "execute R db = (Inr (), dR)" by (simp add: R_def album_stmts_def)
  have "dangling_count dR \<le> dangling_count db"
    using e by (rule entity_statement_dangling [rotated]) (simp add: R_def album_stmts_def)
  with assms have nR: "no_dangling dR" by (simp flip: dangling_count_0)
  have tR: "alb_id album \<in> ids (Album dR)"
    using e by (auto simp: R_def album_stmts_def ids_insert_or_replace)
  from album_pairs_dangling [OF nR tR, of "alb_artists album"]
  have p: "\<And>m. dangling_count (after_prefix m pairs dR) \<le> 1" "fst (run pairs dR) = Inr ()"
    "no_dangling (snd (run pairs dR))" by (simp_all add: pairs_def)
  obtain dP where rp: "run pairs dR = (Inr (), dP)" and nP: "no_dangling dP"
    using p(2,3) by (cases "run pairs dR") auto
  have rest: "dangling_count (after_prefix m (pairs @ A) dR) \<le> 1" for m
  proof (cases "m \<le> length pairs")
    case True
    with p(1) show ?thesis by (simp add: after_prefix_append)
  next
    case False
    have "dangling_count (after_prefix (m - length pairs) A dP) \<le> dangling_count dP"
      using A by (rule entity_prefix_dangling)
    with False nP rp show ?thesis by (simp add: after_prefix_append flip: dangling_count_0)
  qed
  show "dangling_count (after_prefix n (album_stmts album d) db) \<le> 1"
  proof (cases n)
    case 0
    with assms show ?thesis by simp
  next
    case (Suc m)
    with rest [of m] show ?thesis by (simp add: s after_prefix_Suc [OF e])
  qed
  have "dangling_count (snd (run A dP)) \<le> dangling_count dP"
    using entity_prefix_dangling [OF A, of "length A" dP] by (simp add: after_prefix_all)
  with nP have "dangling_count (snd (run A dP)) = 0" by (simp flip: dangling_count_0)
  then show "dangling_count (snd (run (album_stmts album d) db)) = 0"
    by (simp only: s run_Cons_ok [OF e] run_append rp prod.case sum.case)
qed

lemma artist_stmts_dangling:
  assumes "dangling_count db = 0"
  shows "dangling_count (after_prefix n (artist_stmts artist) db) = 0"
proof -
  define R where "R = hd (artist_stmts artist)"
  define pairs where "pairs = concat (map (\<lambda>genre.
      [InsertOrIgnoreGenre genre, InsertOrIgnoreArtistGenre (art_id artist) genre]) (art_genres artist))"
  have s: "artist_stmts artist = R # pairs" by (simp add: R_def pairs_def artist_stmts_def)
  obtain dR where e: "execute R db = (Inr (), dR)" by (simp add: R_def artist_stmts_def)
  have "dangling_count dR \<le> dangling_count db"
    using e by (rule entity_statement_dangling [rotated]) (simp add: R_def artist_stmts_def)
  with assms have nR: "no_dangling dR" by (simp flip: dangling_count_0)
  have tR: "art_id artist \<in> ids (Artist dR)"
    using e by (auto simp: R_def artist_stmts_def ids_insert_or_replace)
  from genre_pairs_dangling [OF nR tR, of "art_genres artist"]
  have p: "\<And>m. no_dangling (after_prefix m pairs dR)" by (simp_all add: pairs_def)
  show ?thesis
  proof (cases n)
    case 0
    with assms show ?thesis by simp
  next
    case (Suc m)
    with p [of m] show ?thesis by (simp add: s after_prefix_Suc [OF e] dangling_count_0)
  qed
qed

text \<open>
  Claim C4, as amended. From a store without dangling junction rows: after any prefix
  of the statements that persist one track or one album at most one junction row
  references an id that has no row (the \<open>TrackArtist\<close> or \<open>AlbumArtist\<close> row just inserted,
  whose placeholder artist is the next statement), and after the whole record none
  does; after any prefix of the statements that persist one artist none does, the genre
  row being inserted before the \<open>ArtistGenre\<close> row that references it.
\<close>

theorem junction_rows_after_prefix:
  assumes "dangling_count db = 0"
  shows "(\<forall>n. dangling_count (after_prefix n (track_stmts track) db) \<le> 1) \<and>
         dangling_count (snd (dump_tracks [track] db)) = 0 \<and>
         (\<forall>n. dangling_count (after_prefix n (album_stmts album release_date) db) \<le> 1) \<and>
         dangling_count (snd (dump_albums [album] db)) = 0 \<and>
         (\<forall>n. dangling_count (after_prefix n (artist_stmts artist) db) = 0)"
proof -
  have "dangling_count (snd (dump_albums [album] db)) = 0"
  proof (cases "normalize_release_date (alb_release_date album)")
    case (Inl e)
    with assms show ?thesis unfolding dump_single by simp
  next
    case (Inr d)
    with album_stmts_dangling(2) [OF assms, of album d] show ?thesis unfolding dump_single by simp
  qed
  moreover have "dangling_count (snd (dump_tracks [track] db)) = 0"
    using track_stmts_dangling(2) [OF assms, of track] unfolding dump_single by simp
  ultimately show ?thesis
    using track_stmts_dangling(1) [OF assms] album_stmts_dangling(1) [OF assms]
      artist_stmts_dangling [OF assms]
    by simp
qed

theorem junction_rows_after_prefix_witness:
  "dangling_count empty_store = 0 \<and>
   (\<forall>n. dangling_count (after_prefix n (track_stmts track1) empty_store) \<le> 1) \<and>
   dangling_count (snd (dump_tracks [track1] empty_store)) = 0 \<and>
   (\<forall>n. dangling_count (after_prefix n (album_stmts album1 ''2001-05-01'') empty_store) \<le> 1) \<and>
   dangling_count (snd (dump_albums [album1] empty_store)) = 0 \<and>
   (\<forall>n. dangling_count (after_prefix n (artist_stmts artist1) empty_store) = 0)"
  using junction_rows_after_prefix [of empty_store track1 album1 "''2001-05-01''" artist1]
  by (simp add: dangling_count_def dangling_def empty_store_def)

text \<open>
  Claim C4 as stated fails for \<open>dump_tracks\<close>: the second statement for track \<open>t1\<close>
  inserts the \<open>TrackArtist\<close> row \<open>(t1, a1)\<close>, the third the placeholder artist \<open>a1\<close>; after
  the first two, on an empty store, the junction row references an artist that has no
  row.
\<close>

theorem junction_row_precedes_placeholder:
  "take 3 (track_stmts track1) = [InsertOrReplaceTrack ''t1''
      \<lparr>t_name = Some ''Song'', t_album_id = Some ''al1'', t_duration = Some 215000,
       t_popularity = Some 40, t_explicit = Some 0, t_track_number = Some 1\<rparr>,
     InsertOrIgnoreTrackArtist ''t1'' ''a1'', InsertOrIgnoreArtist ''a1''] \<and>
   TrackArtist (after_prefix 2 (track_stmts track1) empty_store) = [(''t1'', ''a1'')] \<and>
   Artist (after_prefix 2 (track_stmts track1) empty_store) = [] \<and>
   dangling (after_prefix 2 (track_stmts track1) empty_store) = ([(''t1'', ''a1'')], [], [])"
  by (simp add: track_stmts_def track1_def after_prefix_def empty_store_def bind_def
      insert_or_replace_def insert_edge_def dangling_def ids_def)

subsection \<open>Saving the MusicBrainz data\<close>



















subsection \<open>The scheduler\<close>

lemma end_of_pass_Break:
  "end_of_pass db = Break \<longleftrightarrow>
     tracks_incomplete db = 0 \<and> albums_incomplete db = 0 \<and> artists_incomplete db = 0"
  by (simp add: end_of_pass_def)

lemma end_of_pass_Continue:
  "end_of_pass db = Continue \<longleftrightarrow>
     tracks_incomplete db > 0 \<or> albums_incomplete db > 0 \<or> artists_incomplete db > 0"
  by (simp add: end_of_pass_def)

lemma main_loop_done:
  assumes "main_loop stages db_of w = Some w'"
  shows "end_of_pass (db_of w') = Break"
  by (rule main_loop.raw_induct [where P = "\<lambda>s d w y. end_of_pass (d y) = Break", OF _ assms])
    (auto split: option.splits flow.splits)

lemma main_loop_reenters:
  "stages w = Some w1 \<Longrightarrow> end_of_pass (db_of w1) = Continue \<Longrightarrow>
     main_loop stages db_of w = main_loop stages db_of w1"
  by (subst main_loop.simps) simp

lemma main_loop_breaks:
  "stages w = Some w1 \<Longrightarrow> end_of_pass (db_of w1) = Break \<Longrightarrow> main_loop stages db_of w = Some w1"
  by (subst main_loop.simps) simp

text \<open>
  Claim C2. The main loop of the scheduler returns only from a pass at whose end the
  three counts are zero together: the tracks with a NULL name, the albums with a NULL
  name, the artists with a NULL name or \<open>retrieved_albums = 0\<close>. After a pass that ends
  with any of the counts above zero the loop runs the next pass from the state that
  pass left, and does not return.
\<close>

theorem main_loop_terminates_only_when_complete:
  "(main_loop stages db_of w = Some w' \<longrightarrow>
      tracks_incomplete (db_of w') = 0 \<and> albums_incomplete (db_of w') = 0 \<and>
      artists_incomplete (db_of w') = 0) \<and>
   (stages w = Some w1 \<longrightarrow>
      (if tracks_incomplete (db_of w1) = 0 \<and> albums_incomplete (db_of w1) = 0 \<and>
          artists_incomplete (db_of w1) = 0
       then main_loop stages db_of w = Some w1
       else main_loop stages db_of w = main_loop stages db_of w1))"
proof -
  have "tracks_incomplete (db_of w') = 0 \<and> albums_incomplete (db_of w') = 0 \<and>
      artists_incomplete (db_of w') = 0" if "main_loop stages db_of w = Some w'"
    using main_loop_done [OF that] by (simp add: end_of_pass_Break)
  moreover have "if tracks_incomplete (db_of w1) = 0 \<and> albums_incomplete (db_of w1) = 0 \<and>
          artists_incomplete (db_of w1) = 0
       then main_loop stages db_of w = Some w1
       else main_loop stages db_of w = main_loop stages db_of w1" if s: "stages w = Some w1"
  proof (cases "end_of_pass (db_of w1)")
    case Continue
    with main_loop_reenters [of stages w w1 db_of] s show ?thesis
      by (auto simp: end_of_pass_Continue)
  next
    case Break
    with main_loop_breaks [of stages w w1 db_of] s show ?thesis
      by (simp add: end_of_pass_Break)
  qed
  ultimately show ?thesis by blast
qed

theorem main_loop_terminates_only_when_complete_witness:
  "artists_incomplete store1 = 1 \<and>
   main_loop (\<lambda>db. if db = empty_store then Some store1 else Some store2) id empty_store =
     main_loop (\<lambda>db. if db = empty_store then Some store1 else Some store2) id store1 \<and>
   main_loop (\<lambda>db. if db = empty_store then Some store1 else Some store2) id store1 = Some store2 \<and>
   tracks_incomplete store2 = 0 \<and> albums_incomplete store2 = 0 \<and> artists_incomplete store2 = 0"
proof -
  let ?stages = "\<lambda>db. if db = empty_store then Some store1 else Some store2"
  have ne: "store1 \<noteq> empty_store"
    by (simp add: store1_def empty_store_def)
  have c: "artists_incomplete store1 = 1"
    "tracks_incomplete store2 = 0" "albums_incomplete store2 = 0" "artists_incomplete store2 = 0"
    by (simp_all add: tracks_incomplete_def albums_incomplete_def artists_incomplete_def
        empty_store_def store1_def store2_def)
  from main_loop_terminates_only_when_complete [of ?stages id empty_store store2 store1]
    main_loop_terminates_only_when_complete [of ?stages id store1 store2 store2]
  show ?thesis using ne c by simp
qed

subsection \<open>A burst of calls to the rate limiter\<close>

lemma evict_all_recent: "\<forall>x\<in>set dq. c - x \<le> dur \<Longrightarrow> evict dur c dq = dq"
  by (cases dq) auto

lemma check_rate_limit_no_wait:
  fixes w :: "'j world"
  assumes "length (evict 30 (clock w) (halfmin_timestamps w)) < 40"
    and "length (evict 3600 (clock w) (hourly_timestamps w)) < 2500"
    and "length (evict 86400 (clock w) (daily_timestamps w)) < 4500"
  shows "\<exists>w'. check_rate_limit w = (Inr (), w') \<and>
     halfmin_timestamps w' = evict 30 (clock w) (halfmin_timestamps w) @ [clock w] \<and>
     hourly_timestamps w' = evict 3600 (clock w) (hourly_timestamps w) @ [clock w] \<and>
     daily_timestamps w' = evict 86400 (clock w) (daily_timestamps w) @ [clock w] \<and>
     clock w' = clock w + 1 / 10"
  using assms
  by (simp add: check_rate_limit_def Let_def bind_def sleep_def window_wait_def return_def
      base_wait_def MAX_REQUESTS_PER_30_SEC_def MAX_REQUESTS_PER_HOUR_def MAX_REQUESTS_PER_DAY_def)

lemma burst_recent:
  assumes "m \<le> 40" and "30 \<le> dur"
  shows "\<forall>x\<in>set (map (\<lambda>k. (of_nat k :: rat) / 10) [0..<m]). of_nat m / 10 - x \<le> dur"
proof
  fix x :: rat
  assume "x \<in> set (map (\<lambda>k. of_nat k / 10) [0..<m])"
  then have "0 \<le> x" by auto
  moreover have "(of_nat m :: rat) \<le> 40" using assms(1) by (simp add: of_nat_le_iff [of m 40, simplified])
  ultimately show "of_nat m / 10 - x \<le> dur" using assms(2) by simp
qed

lemma burst_step:
  fixes w :: "'j world"
  assumes "burst m w" and "m < 40"
  shows "\<exists>w'. check_rate_limit (elapse 0 w) = (Inr (), w') \<and> burst (Suc m) w'"
proof -
  let ?dq = "map (\<lambda>k. (of_nat k :: rat) / 10) [0..<m]"
  from assms have m: "m \<le> 40" by simp
  have c: "clock (elapse 0 w) = of_nat m / 10" using assms(1) by (simp add: elapse_def burst_def)
  have e: "evict 30 (of_nat m / 10) ?dq = ?dq" "evict 3600 (of_nat m / 10) ?dq = ?dq"
    "evict 86400 (of_nat m / 10) ?dq = ?dq"
    using burst_recent [OF m, of 30] burst_recent [OF m, of 3600] burst_recent [OF m, of 86400]
    by (simp_all add: evict_all_recent)
  have q: "halfmin_timestamps (elapse 0 w) = ?dq" "hourly_timestamps (elapse 0 w) = ?dq"
    "daily_timestamps (elapse 0 w) = ?dq"
    using assms(1) by (simp_all add: elapse_def burst_def)
  from check_rate_limit_no_wait [of "elapse 0 w"] assms(2) obtain w' where
    "check_rate_limit (elapse 0 w) = (Inr (), w')"
    "halfmin_timestamps w' = ?dq @ [of_nat m / 10]" "hourly_timestamps w' = ?dq @ [of_nat m / 10]"
    "daily_timestamps w' = ?dq @ [of_nat m / 10]" "clock w' = of_nat m / 10 + 1 / 10"
    unfolding c q e by auto
  moreover have "(of_nat m :: rat) / 10 + 1 / 10 = of_nat (Suc m) / 10" by simp
  ultimately show ?thesis by (auto simp: burst_def)
qed

lemma burst_calls:
  fixes w :: "'j world"
  shows "burst m w \<Longrightarrow> m + n \<le> 40 \<Longrightarrow>
    \<exists>w'. rate_limited_calls (replicate n 0) w = (Inr (), w') \<and> burst (m + n) w'"
proof (induction n arbitrary: m w)
  case 0
  then show ?case by (simp add: return_def)
next
  case (Suc n)
  then have "m < 40" by simp
  from burst_step [OF Suc.prems(1) this] obtain w1 where
    1: "check_rate_limit (elapse 0 w) = (Inr (), w1)" "burst (Suc m) w1" by blast
  from Suc.IH [OF 1(2)] Suc.prems(2) obtain w' where
    "rate_limited_calls (replicate n 0) w1 = (Inr (), w')" "burst (Suc m + n) w'" by auto
  with 1 show ?case by (simp add: bind_def)
qed

lemma rate_limited_calls_append:
  "rate_limited_calls (ds @ es) w =
     bind (rate_limited_calls ds) (\<lambda>_ w'. rate_limited_calls es w') w"
  by (induction ds arbitrary: w) (simp_all add: bind_def return_def split: prod.splits sum.splits)

text \<open>
  Forty-one calls in a row from the fresh module: the last one finds forty timestamps,
  waits, and appends its own to a deque that still holds all forty.
\<close>

lemma deque_holds_cap_plus_one:
  "\<exists>w'. rate_limited_calls (replicate 41 0) (world0 :: unit world) = (Inr (), w') \<and>
     halfmin_timestamps w' = map (\<lambda>k. of_nat k / 10) [0..<41] \<and>
     length (halfmin_timestamps w') = 41"
proof -
  have "burst 0 (world0 :: unit world)" by (simp add: burst_def world0_def)
  from burst_calls [OF this, of 40] obtain w40 :: "unit world" where
    1: "rate_limited_calls (replicate 40 0) world0 = (Inr (), w40)" and b: "burst 40 w40" by auto
  let ?dq = "map (\<lambda>k. (of_nat k :: rat) / 10) [0..<40]"
  have c: "clock (elapse 0 w40) = 4" using b by (simp add: elapse_def burst_def)
  have q: "halfmin_timestamps (elapse 0 w40) = ?dq" using b by (simp add: elapse_def burst_def)
  have e: "evict 30 4 ?dq = ?dq"
    using burst_recent [of 40 30] by (intro evict_all_recent) simp
  from check_rate_limit_effect [of "elapse 0 w40"] have
    "\<exists>w'. check_rate_limit (elapse 0 w40) = (Inr (), w') \<and> halfmin_timestamps w' = ?dq @ [4]"
    unfolding c q e by (elim exE conjE) (intro exI conjI)
  then obtain w' where 2: "check_rate_limit (elapse 0 w40) = (Inr (), w')"
    and h: "halfmin_timestamps w' = ?dq @ [4]" by blast
  have "replicate (40 + 1) (0 :: rat) = replicate 40 0 @ replicate 1 0" by (rule replicate_add)
  then have "replicate 41 (0 :: rat) = replicate 40 0 @ [0]" by simp
  then have "rate_limited_calls (replicate 41 0) (world0 :: unit world) = (Inr (), w')"
    using 1 2 by (simp add: rate_limited_calls_append bind_def return_def)
  moreover have "[0..<Suc 40] = [0..<40] @ [40]" by (simp only: upt_Suc_append le0 if_True)
  then have "[0..<41] = [0..<40] @ [40]" by simp
  then have "halfmin_timestamps w' = map (\<lambda>k. of_nat k / 10) [0..<41]" by (simp add: h)
  ultimately show ?thesis by simp
qed

end
